theory Spec2Isabelle
  imports Main "HOL-Library.Word"
begin

unbundle bit_operations_syntax

section \<open>Cache attach and detach of LVM2 (lib/metadata/cache\_manip.c)\<close>

text \<open>
  The file under study holds two functions, \<^verbatim>\<open>lv_cache_create\<close> (attach) and
  \<^verbatim>\<open>lv_cache_remove\<close> (detach). Both orchestrate primitives that live elsewhere
  in LVM2: the volume and segment graph primitives, the metadata transaction
  (\<^verbatim>\<open>vg_write\<close>, \<^verbatim>\<open>vg_commit\<close>), the live-mapping control (\<^verbatim>\<open>suspend_lv\<close>,
  \<^verbatim>\<open>resume_lv\<close>, \<^verbatim>\<open>activate_lv\<close>, \<^verbatim>\<open>deactivate_lv\<close>) and the kernel status
  queries. The two functions are embedded statement by statement. The primitives
  are embedded as follows:
  \<^item> every call of a primitive is recorded, with its result, in a trace that is part
    of the state, so that the order of the calls can be stated;
  \<^item> whether a fallible primitive succeeds, and what a query returns, is decided by
    an oracle that sees the whole trace so far; the theorems hold for every oracle;
  \<^item> what a graph primitive does to the in-memory metadata is modelled from the
    specification's description of it.
  Pointers are indices into two arenas (volumes and segments); a freed cell is
  \<open>None\<close>. Dereferencing a null or dangling pointer in the two functions is the
  outcome \<open>Fault\<close>. Logging (\<^verbatim>\<open>log_error\<close> and the trace line of \<^verbatim>\<open>return_0\<close>) is not
  modelled.
\<close>

subsection \<open>Data model\<close>

type_synonym lvid = nat
type_synonym segid = nat

text \<open>A segment type handle, as returned by \<^verbatim>\<open>get_segtype_from_string\<close>.\<close>

datatype segment_type = Segtype string

datatype area = AREA_PV string nat | AREA_LV lvid

record lv_segment =
  le :: nat
  len :: nat
  segtype :: "segment_type option"
  areas :: "area list"
  pool_lv :: "lvid option"
  policy_name :: "string option"
  policy_argc :: nat
  policy_argv :: "string list option"

record logical_volume =
  name :: string
  status :: "64 word"
  visible :: bool
  le_count :: nat
  segments :: "segid list"
  segs_using_this_lv :: "segid list"

text \<open>The calls of fallible primitives, with their arguments.\<close>

datatype call =
    InsertLayerForLv lvid "64 word" string
  | AttachPoolLv segid lvid
  | VgWrite
  | SuspendLv lvid
  | VgCommit
  | ResumeLv lvid
  | DetachPoolLv segid
  | RemoveSegFromSegsUsingThisLv lvid segid
  | MoveLvSegments lvid lvid
  | LvAddVirtualSegment lvid "64 word" nat "segment_type option"
  | ActivateLv lvid
  | DeactivateLv lvid
  | LvRemove lvid

datatype event =
    Call call bool
  | PolicyInfo lvid "string option"
  | BlockInfo lvid "64 word option"
  | Sleep nat
  | SetVisible lvid

text \<open>
  The surroundings of the two functions: the command context's registered segment
  types, the status bits whose values are declared in a header that is not part of
  the file (taken as parameters), and the oracle for the primitives.
\<close>

record env =
  segtypes :: "string list"
  CACHE :: "64 word"
  CACHE_POOL :: "64 word"
  CACHE_TYPE_MASK :: "64 word"
  succeeds :: "event list \<Rightarrow> call \<Rightarrow> bool"
  policy_info :: "event list \<Rightarrow> lvid \<Rightarrow> string option"
  block_info :: "event list \<Rightarrow> lvid \<Rightarrow> 64 word option"

record world =
  lvs :: "logical_volume option list"
  segs :: "lv_segment option list"
  trace :: "event list"

datatype 'a result = Return 'a | Fault

subsection \<open>Arena access\<close>

definition get_lv :: "world \<Rightarrow> lvid \<Rightarrow> logical_volume option" where
  "get_lv w i = (if i < length (lvs w) then lvs w ! i else None)"

definition get_seg :: "world \<Rightarrow> segid \<Rightarrow> lv_segment option" where
  "get_seg w i = (if i < length (segs w) then segs w ! i else None)"

definition put_lv :: "lvid \<Rightarrow> logical_volume \<Rightarrow> world \<Rightarrow> world" where
  "put_lv i l w = w\<lparr>lvs := (lvs w)[i := Some l]\<rparr>"

definition put_seg :: "segid \<Rightarrow> lv_segment \<Rightarrow> world \<Rightarrow> world" where
  "put_seg i s w = w\<lparr>segs := (segs w)[i := Some s]\<rparr>"

text \<open>\<^verbatim>\<open>first_seg(lv)\<close>: the first segment of the volume, or NULL.\<close>

definition first_seg :: "world \<Rightarrow> lvid \<Rightarrow> segid option" where
  "first_seg w i =
     (case get_lv w i of
        None \<Rightarrow> None
      | Some l \<Rightarrow> (case segments l of [] \<Rightarrow> None | s # _ \<Rightarrow> Some s))"

text \<open>\<^verbatim>\<open>seg_lv(seg, n)\<close>: the volume that area \<open>n\<close> of the segment maps onto.\<close>

definition seg_lv :: "lv_segment \<Rightarrow> nat \<Rightarrow> lvid option" where
  "seg_lv s n =
     (if n < length (areas s)
      then (case areas s ! n of AREA_LV l \<Rightarrow> Some l | AREA_PV _ _ \<Rightarrow> None)
      else None)"

subsection \<open>Status predicates\<close>

text \<open>
  Modelled from the spec: the macros \<^verbatim>\<open>lv_is_cache\<close>, \<^verbatim>\<open>lv_is_cache_pool\<close> and
  \<^verbatim>\<open>lv_is_cache_type\<close> are declared in a header that is not part of the file. The
  spec calls a volume CACHE-tagged when the CACHE status bit is set, "a recognized
  cache pool" and "cache-typed"; each is a test of status bits.
\<close>

definition lv_is_cache :: "env \<Rightarrow> logical_volume \<Rightarrow> bool" where
  "lv_is_cache E l = (status l AND CACHE E \<noteq> 0)"

definition lv_is_cache_pool :: "env \<Rightarrow> logical_volume \<Rightarrow> bool" where
  "lv_is_cache_pool E l = (status l AND CACHE_POOL E \<noteq> 0)"

definition lv_is_cache_type :: "env \<Rightarrow> logical_volume \<Rightarrow> bool" where
  "lv_is_cache_type E l = (status l AND CACHE_TYPE_MASK E \<noteq> 0)"

subsection \<open>Primitives\<close>

definition record_event :: "event \<Rightarrow> world \<Rightarrow> world" where
  "record_event e w = w\<lparr>trace := trace w @ [e]\<rparr>"

text \<open>
  A fallible primitive: it fails when the oracle says so or when its effect on the
  graph is not defined, and then leaves the graph as it was; the call and its
  result are recorded.
\<close>

definition primitive :: "env \<Rightarrow> call \<Rightarrow> (world \<Rightarrow> world option) \<Rightarrow> world \<Rightarrow> bool \<times> world" where
  "primitive E c effect w =
     (case (if succeeds E (trace w) c then effect w else None) of
        None \<Rightarrow> (False, record_event (Call c False) w)
      | Some w' \<Rightarrow> (True, record_event (Call c True) w'))"

text \<open>
  Modelled from the spec: segment-type resolution by name, "returning an opaque
  type handle or failure". The command context holds the registered names.
\<close>

definition get_segtype_from_string :: "env \<Rightarrow> string \<Rightarrow> segment_type option" where
  "get_segtype_from_string E str =
     (if str \<in> set (segtypes E) then Some (Segtype str) else None)"

text \<open>
  Modelled from the spec: \<^verbatim>\<open>insert_layer_for_lv\<close>, "insert a hidden layering volume
  beneath a given volume with a given status tag and name suffix". The given
  volume keeps its name and receives the tag; a new hidden volume, named with the
  suffix, takes over its segments and extent count; the given volume is left with
  a single new segment that spans the extent count and maps onto the new volume,
  which records that segment as its user.
\<close>

definition insert_layer_effect :: "lvid \<Rightarrow> 64 word \<Rightarrow> string \<Rightarrow> world \<Rightarrow> world option" where
  "insert_layer_effect lv_where st suffix w =
     (case get_lv w lv_where of
        None \<Rightarrow> None
      | Some l \<Rightarrow>
          let layer_lv = length (lvs w); mapseg = length (segs w) in
          Some (w\<lparr>lvs := (lvs w)[lv_where := Some (l\<lparr>status := status l OR st,
                                                       segments := [mapseg]\<rparr>)]
                         @ [Some \<lparr>name = name l @ suffix, status = 0, visible = False,
                                  le_count = le_count l, segments = segments l,
                                  segs_using_this_lv = [mapseg]\<rparr>],
                  segs := segs w
                         @ [Some \<lparr>le = 0, len = le_count l, segtype = None,
                                  areas = [AREA_LV layer_lv], pool_lv = None,
                                  policy_name = None, policy_argc = 0,
                                  policy_argv = None\<rparr>]\<rparr>))"

definition insert_layer_for_lv :: "env \<Rightarrow> lvid \<Rightarrow> 64 word \<Rightarrow> string \<Rightarrow> world \<Rightarrow> lvid option \<times> world" where
  "insert_layer_for_lv E lv_where st suffix w =
     (case primitive E (InsertLayerForLv lv_where st suffix)
             (insert_layer_effect lv_where st suffix) w of
        (ok, w') \<Rightarrow> (if ok then Some (length (lvs w)) else None, w'))"

text \<open>
  Modelled from the spec: \<^verbatim>\<open>attach_pool_lv\<close>, "attach the pool reference to that
  segment, establishing the 1:1 cache-segment to pool relation": the segment
  refers to the pool and the pool records the segment as its user.
\<close>

definition attach_pool_effect :: "segid \<Rightarrow> lvid \<Rightarrow> world \<Rightarrow> world option" where
  "attach_pool_effect seg pool w =
     (case get_seg w seg of
        None \<Rightarrow> None
      | Some s \<Rightarrow>
          (case get_lv w pool of
             None \<Rightarrow> None
           | Some p \<Rightarrow>
               Some (put_lv pool (p\<lparr>segs_using_this_lv := seg # segs_using_this_lv p\<rparr>)
                       (put_seg seg (s\<lparr>pool_lv := Some pool\<rparr>) w))))"

definition attach_pool_lv :: "env \<Rightarrow> segid \<Rightarrow> lvid \<Rightarrow> world \<Rightarrow> bool \<times> world" where
  "attach_pool_lv E seg pool w = primitive E (AttachPoolLv seg pool) (attach_pool_effect seg pool) w"

text \<open>
  Modelled from the spec: \<^verbatim>\<open>detach_pool_lv\<close>, "break the cache-segment to pool
  relation". It fails on a segment that refers to no pool.
\<close>

definition detach_pool_effect :: "segid \<Rightarrow> world \<Rightarrow> world option" where
  "detach_pool_effect seg w =
     (case get_seg w seg of
        None \<Rightarrow> None
      | Some s \<Rightarrow>
          (case pool_lv s of
             None \<Rightarrow> None
           | Some pool \<Rightarrow>
               (case get_lv w pool of
                  None \<Rightarrow> None
                | Some p \<Rightarrow>
                    Some (put_lv pool (p\<lparr>segs_using_this_lv := remove1 seg (segs_using_this_lv p)\<rparr>)
                            (put_seg seg (s\<lparr>pool_lv := None\<rparr>) w)))))"

definition detach_pool_lv :: "env \<Rightarrow> segid \<Rightarrow> world \<Rightarrow> bool \<times> world" where
  "detach_pool_lv E seg w = primitive E (DetachPoolLv seg) (detach_pool_effect seg) w"

text \<open>Modelled from the spec: \<^verbatim>\<open>lv_set_visible\<close>, "mark it user-visible again".\<close>

definition lv_set_visible :: "lvid \<Rightarrow> world \<Rightarrow> world" where
  "lv_set_visible i w =
     record_event (SetVisible i)
       (case get_lv w i of None \<Rightarrow> w | Some l \<Rightarrow> put_lv i (l\<lparr>visible := True\<rparr>) w)"

text \<open>
  Modelled from the spec: \<^verbatim>\<open>remove_seg_from_segs_using_this_lv\<close>, "remove a
  back-reference entry".
\<close>

definition remove_seg_effect :: "lvid \<Rightarrow> segid \<Rightarrow> world \<Rightarrow> world option" where
  "remove_seg_effect i seg w =
     (case get_lv w i of
        None \<Rightarrow> None
      | Some l \<Rightarrow> Some (put_lv i (l\<lparr>segs_using_this_lv := remove1 seg (segs_using_this_lv l)\<rparr>) w))"

definition remove_seg_from_segs_using_this_lv :: "env \<Rightarrow> lvid \<Rightarrow> segid \<Rightarrow> world \<Rightarrow> bool \<times> world" where
  "remove_seg_from_segs_using_this_lv E i seg w =
     primitive E (RemoveSegFromSegsUsingThisLv i seg) (remove_seg_effect i seg) w"

text \<open>
  Modelled from the spec: \<^verbatim>\<open>move_lv_segments\<close>, "move all segments from the hidden
  origin volume onto the top-level volume, replacing the single cache segment":
  the receiving volume owns the segments and their extent count, the giving
  volume is left empty.
\<close>

definition move_segments_effect :: "lvid \<Rightarrow> lvid \<Rightarrow> world \<Rightarrow> world option" where
  "move_segments_effect lv_to lv_from w =
     (case get_lv w lv_to of
        None \<Rightarrow> None
      | Some t \<Rightarrow>
          (case get_lv w lv_from of
             None \<Rightarrow> None
           | Some f \<Rightarrow>
               if lv_to = lv_from then None
               else Some (put_lv lv_from (f\<lparr>segments := [], le_count := 0\<rparr>)
                            (put_lv lv_to (t\<lparr>segments := segments f, le_count := le_count f\<rparr>) w))))"

definition move_lv_segments :: "env \<Rightarrow> lvid \<Rightarrow> lvid \<Rightarrow> world \<Rightarrow> bool \<times> world" where
  "move_lv_segments E lv_to lv_from w =
     primitive E (MoveLvSegments lv_to lv_from) (move_segments_effect lv_to lv_from) w"

text \<open>
  Modelled from the spec: \<^verbatim>\<open>lv_add_virtual_segment\<close>, "add a placeholder segment
  spanning a given extent count": a new segment of the given type and length,
  mapping onto nothing, is appended to the volume.
\<close>

definition add_virtual_effect :: "lvid \<Rightarrow> nat \<Rightarrow> segment_type option \<Rightarrow> world \<Rightarrow> world option" where
  "add_virtual_effect i extents st w =
     (case get_lv w i of
        None \<Rightarrow> None
      | Some l \<Rightarrow>
          Some (w\<lparr>lvs := (lvs w)[i := Some (l\<lparr>segments := segments l @ [length (segs w)],
                                               le_count := le_count l + extents\<rparr>)],
                  segs := segs w
                         @ [Some \<lparr>le = le_count l, len = extents, segtype = st, areas = [],
                                  pool_lv = None, policy_name = None, policy_argc = 0,
                                  policy_argv = None\<rparr>]\<rparr>))"

definition lv_add_virtual_segment :: "env \<Rightarrow> lvid \<Rightarrow> 64 word \<Rightarrow> nat \<Rightarrow> segment_type option \<Rightarrow> world \<Rightarrow> bool \<times> world" where
  "lv_add_virtual_segment E i flags extents st w =
     primitive E (LvAddVirtualSegment i flags extents st) (add_virtual_effect i extents st) w"

text \<open>
  Modelled from the spec: \<^verbatim>\<open>lv_remove\<close>, "delete the volume's metadata entirely":
  the volume and the segments it owns leave the arenas.
\<close>

definition free_segs :: "segid list \<Rightarrow> lv_segment option list \<Rightarrow> lv_segment option list" where
  "free_segs ids ss = fold (\<lambda>i acc. acc[i := None]) ids ss"

definition lv_remove_effect :: "lvid \<Rightarrow> world \<Rightarrow> world option" where
  "lv_remove_effect i w =
     (case get_lv w i of
        None \<Rightarrow> None
      | Some l \<Rightarrow> Some (w\<lparr>lvs := (lvs w)[i := None], segs := free_segs (segments l) (segs w)\<rparr>))"

definition lv_remove :: "env \<Rightarrow> lvid \<Rightarrow> world \<Rightarrow> bool \<times> world" where
  "lv_remove E i w = primitive E (LvRemove i) (lv_remove_effect i) w"

text \<open>
  The metadata transaction and the live-mapping control change nothing in the
  in-memory graph; their effect on disk and kernel is what the trace records.
\<close>

definition vg_write :: "env \<Rightarrow> world \<Rightarrow> bool \<times> world" where
  "vg_write E w = primitive E VgWrite Some w"

definition vg_commit :: "env \<Rightarrow> world \<Rightarrow> bool \<times> world" where
  "vg_commit E w = primitive E VgCommit Some w"

definition suspend_lv :: "env \<Rightarrow> lvid \<Rightarrow> world \<Rightarrow> bool \<times> world" where
  "suspend_lv E i w = primitive E (SuspendLv i) Some w"

definition resume_lv :: "env \<Rightarrow> lvid \<Rightarrow> world \<Rightarrow> bool \<times> world" where
  "resume_lv E i w = primitive E (ResumeLv i) Some w"

definition activate_lv :: "env \<Rightarrow> lvid \<Rightarrow> world \<Rightarrow> bool \<times> world" where
  "activate_lv E i w = primitive E (ActivateLv i) Some w"

definition deactivate_lv :: "env \<Rightarrow> lvid \<Rightarrow> world \<Rightarrow> bool \<times> world" where
  "deactivate_lv E i w = primitive E (DeactivateLv i) Some w"

text \<open>The kernel status queries: the policy name and the dirty-block count.\<close>

definition lv_cache_policy_info :: "env \<Rightarrow> lvid \<Rightarrow> world \<Rightarrow> string option \<times> world" where
  "lv_cache_policy_info E i w =
     (let r = policy_info E (trace w) i in (r, record_event (PolicyInfo i r) w))"

definition lv_cache_block_info :: "env \<Rightarrow> lvid \<Rightarrow> world \<Rightarrow> 64 word option \<times> world" where
  "lv_cache_block_info E i w =
     (let r = block_info E (trace w) i in (r, record_event (BlockInfo i r) w))"

definition sleep :: "nat \<Rightarrow> world \<Rightarrow> world" where
  "sleep n w = record_event (Sleep n) w"

subsection \<open>\<^verbatim>\<open>lv_cache_create\<close>\<close>

text \<open>
  The result \<open>Return None\<close> is the NULL of the source, \<open>Return (Some lv)\<close> the
  cache volume.
\<close>

definition lv_cache_create :: "env \<Rightarrow> lvid \<Rightarrow> lvid \<Rightarrow> world \<Rightarrow> lvid option result \<times> world" where
  "lv_cache_create E pool origin w0 =
     (case get_lv w0 pool of
        None \<Rightarrow> (Fault, w0)
      | Some p \<Rightarrow>
     if \<not> lv_is_cache_pool E p then (Return None, w0) else
     (case get_lv w0 origin of
        None \<Rightarrow> (Fault, w0)
      | Some orig \<Rightarrow>
     if lv_is_cache_type E orig then (Return None, w0) else
     (case get_segtype_from_string E ''cache'' of
        None \<Rightarrow> (Return None, w0)
      | Some segtype' \<Rightarrow>
     let cache_lv = origin in
     (case insert_layer_for_lv E cache_lv (CACHE E) ''_corig'' w0 of
        (None, w1) \<Rightarrow> (Return None, w1)
      | (Some origin', w1) \<Rightarrow>
     (case first_seg w1 cache_lv of
        None \<Rightarrow> (Fault, w1)
      | Some seg \<Rightarrow>
     (case get_seg w1 seg of
        None \<Rightarrow> (Fault, w1)
      | Some s \<Rightarrow>
     let w2 = put_seg seg (s\<lparr>segtype := Some segtype'\<rparr>) w1 in
     (case attach_pool_lv E seg pool w2 of
        (ok, w3) \<Rightarrow>
     if \<not> ok then (Return None, w3) else
     (Return (Some cache_lv), w3))))))))"

subsection \<open>\<^verbatim>\<open>lv_cache_remove\<close>\<close>

text \<open>
  The loop of lines 151 to 159: query the dirty-block count, sleep five seconds
  when it is nonzero, and repeat while it is nonzero. The loop has no bound, so
  the function is partial: \<open>None\<close> is the run that polls forever. \<open>Some (False, w)\<close>
  is the exit through \<^verbatim>\<open>return_0\<close> when the query fails, \<open>Some (True, w)\<close> the
  exit of the loop.
\<close>

partial_function (option) flush_wait :: "env \<Rightarrow> lvid \<Rightarrow> world \<Rightarrow> (bool \<times> world) option" where
  "flush_wait E cache_lv w =
     (case lv_cache_block_info E cache_lv w of
        (None, w') \<Rightarrow> Some (False, w')
      | (Some dirty_blocks, w') \<Rightarrow>
          if dirty_blocks \<noteq> 0 then flush_wait E cache_lv (sleep 5 w')
          else Some (True, w'))"

text \<open>
  The body of \<^verbatim>\<open>lv_cache_remove\<close> is embedded in four parts, in the order of the
  source, so that each part can be reasoned about on its own.

  Lines 128 to 147, the block entered when the policy is not the cleaner: the
  policy of the cache segment is replaced and the change is pushed to disk and
  kernel. The result is \<open>Some r\<close> when the function returns \<open>r\<close> from inside the
  block and \<open>None\<close> when control falls through to the loop.
\<close>

definition swap_in_cleaner :: "env \<Rightarrow> lvid \<Rightarrow> segid option \<Rightarrow> world \<Rightarrow> int result option \<times> world" where
  "swap_in_cleaner E cache_lv cache_seg w1 =
     (case cache_seg of
        None \<Rightarrow> (Some Fault, w1)
      | Some cseg \<Rightarrow>
     (case get_seg w1 cseg of
        None \<Rightarrow> (Some Fault, w1)
      | Some s \<Rightarrow>
     let wa = put_seg cseg (s\<lparr>policy_name := Some ''cleaner'',
                              policy_argc := 0,
                              policy_argv := None\<rparr>) w1 in
     (case vg_write E wa of (ok, wb) \<Rightarrow>
     if \<not> ok then (Some (Return 0), wb) else
     (case suspend_lv E cache_lv wb of (ok, wc) \<Rightarrow>
     if \<not> ok then (Some (Return 0), wc) else
     (case vg_commit E wc of (ok, wd) \<Rightarrow>
     if \<not> ok then (Some (Return 0), wd) else
     (case resume_lv E cache_lv wd of (ok, we) \<Rightarrow>
     if \<not> ok then (Some (Return 0), we) else
     (None, we)))))))"

text \<open>
  Lines 161 to 185: the pool is unlinked, the origin is made visible and its
  segments are moved up, the CACHE bit is cleared and the placeholder segment is
  added to the origin. The result is \<open>Inl r\<close> when the function returns \<open>r\<close> from
  these lines, and otherwise \<open>Inr\<close> of the two local variables that the rest of the
  function reads, \<^verbatim>\<open>cache_pool_lv\<close> and \<^verbatim>\<open>origin_lv\<close>.
\<close>

definition unlink_and_promote :: "env \<Rightarrow> lvid \<Rightarrow> world \<Rightarrow> (int result + lvid option \<times> lvid) \<times> world" where
  "unlink_and_promote E cache_lv w3 =
     (case first_seg w3 cache_lv of
        None \<Rightarrow> (Inl Fault, w3)
      | Some seg1 \<Rightarrow>
     (case get_seg w3 seg1 of
        None \<Rightarrow> (Inl Fault, w3)
      | Some s1 \<Rightarrow>
     let cache_pool_lv = pool_lv s1 in
     (case detach_pool_lv E seg1 w3 of (ok, w4) \<Rightarrow>
     if \<not> ok then (Inl (Return 0), w4) else
     (case first_seg w4 cache_lv of
        None \<Rightarrow> (Inl Fault, w4)
      | Some seg2 \<Rightarrow>
     (case get_seg w4 seg2 of
        None \<Rightarrow> (Inl Fault, w4)
      | Some s2 \<Rightarrow>
     (case seg_lv s2 0 of
        None \<Rightarrow> (Inl Fault, w4)
      | Some origin_lv \<Rightarrow>
     let w5 = lv_set_visible origin_lv w4 in
     (case first_seg w5 cache_lv of
        None \<Rightarrow> (Inl Fault, w5)
      | Some seg3 \<Rightarrow>
     (case remove_seg_from_segs_using_this_lv E origin_lv seg3 w5 of (ok, w6) \<Rightarrow>
     if \<not> ok then (Inl (Return 0), w6) else
     (case move_lv_segments E cache_lv origin_lv w6 of (ok, w7) \<Rightarrow>
     if \<not> ok then (Inl (Return 0), w7) else
     (case get_lv w7 cache_lv of
        None \<Rightarrow> (Inl Fault, w7)
      | Some c7 \<Rightarrow>
     let w8 = put_lv cache_lv (c7\<lparr>status := status c7 AND NOT (CACHE E)\<rparr>) w7;
         segtype' = get_segtype_from_string E ''error'' in
     (case lv_add_virtual_segment E origin_lv 0 (le_count c7) segtype' w8 of (ok, w9) \<Rightarrow>
     if \<not> ok then (Inl (Return 0), w9) else
     (Inr (cache_pool_lv, origin_lv), w9))))))))))))"

text \<open>
  Lines 187 to 218: the new metadata is pushed to disk and kernel, the pool is
  resumed, and the origin, now a placeholder, is activated, deactivated and
  removed.
\<close>

definition commit_and_teardown :: "env \<Rightarrow> lvid \<Rightarrow> lvid option \<Rightarrow> lvid \<Rightarrow> world \<Rightarrow> int result \<times> world" where
  "commit_and_teardown E cache_lv cache_pool_lv origin_lv w9 =
     (case vg_write E w9 of (ok, w10) \<Rightarrow>
     if \<not> ok then (Return 0, w10) else
     (case suspend_lv E cache_lv w10 of (ok, w11) \<Rightarrow>
     if \<not> ok then (Return 0, w11) else
     (case vg_commit E w11 of (ok, w12) \<Rightarrow>
     if \<not> ok then (Return 0, w12) else
     (case resume_lv E cache_lv w12 of (ok, w13) \<Rightarrow>
     if \<not> ok then (Return 0, w13) else
     (case cache_pool_lv of
        None \<Rightarrow> (Fault, w13)
      | Some pool \<Rightarrow>
     (case resume_lv E pool w13 of (ok, w14) \<Rightarrow>
     if \<not> ok then (Return 0, w14) else
     (case activate_lv E origin_lv w14 of (ok, w15) \<Rightarrow>
     if \<not> ok then (Return 0, w15) else
     (case deactivate_lv E origin_lv w15 of (ok, w16) \<Rightarrow>
     if \<not> ok then (Return 0, w16) else
     (case lv_remove E origin_lv w16 of (ok, w17) \<Rightarrow>
     if \<not> ok then (Return 0, w17) else
     (Return 1, w17))))))))))"

text \<open>
  The whole function: lines 96 to 127, then the four parts. The result \<open>None\<close> is
  the run that never returns because the loop polls forever.
\<close>

definition lv_cache_remove :: "env \<Rightarrow> lvid \<Rightarrow> world \<Rightarrow> (int result \<times> world) option" where
  "lv_cache_remove E cache_lv w0 =
     (case get_lv w0 cache_lv of
        None \<Rightarrow> Some (Fault, w0)
      | Some c \<Rightarrow>
     let cache_seg = first_seg w0 cache_lv in
     if \<not> lv_is_cache E c then Some (Return 0, w0) else
     (case lv_cache_policy_info E cache_lv w0 of
        (None, w1) \<Rightarrow> Some (Return 0, w1)
      | (Some policy_name', w1) \<Rightarrow>
     (case (if policy_name' \<noteq> ''cleaner''
            then swap_in_cleaner E cache_lv cache_seg w1
            else (None, w1)) of
        (Some r, w2) \<Rightarrow> Some (r, w2)
      | (None, w2) \<Rightarrow>
     (case flush_wait E cache_lv w2 of
        None \<Rightarrow> None
      | Some (flushed, w3) \<Rightarrow>
     if \<not> flushed then Some (Return 0, w3) else
     (case unlink_and_promote E cache_lv w3 of
        (Inl r, w9) \<Rightarrow> Some (r, w9)
      | (Inr (cache_pool_lv, origin_lv), w9) \<Rightarrow>
     Some (commit_and_teardown E cache_lv cache_pool_lv origin_lv w9))))))"

subsection \<open>A concrete scenario\<close>

text \<open>
  The scenario of the specification: a cache pool \<open>P\<close> (volume 0) and an origin \<open>O\<close>
  (volume 1) of ten extents with one linear segment. In \<open>scenario_env\<close> every
  primitive succeeds, the kernel reports the policy \<open>mq\<close> and no dirty block. In
  \<open>draining_env\<close> the kernel reports seven dirty blocks until two sleeps have
  passed.
\<close>

definition scenario_env :: env where
  "scenario_env =
     \<lparr>segtypes = [''striped'', ''cache'', ''error''],
      CACHE = 0x1000000000000, CACHE_POOL = 0x200000000000,
      CACHE_TYPE_MASK = 0x1E00000000000,
      succeeds = (\<lambda>_ _. True),
      policy_info = (\<lambda>_ _. Some ''mq''),
      block_info = (\<lambda>_ _. Some 0)\<rparr>"

fun is_sleep :: "event \<Rightarrow> bool" where
  "is_sleep (Sleep n) = True"
| "is_sleep _ = False"

definition draining_env :: env where
  "draining_env =
     scenario_env\<lparr>block_info := (\<lambda>h _. if length (filter is_sleep h) < 2 then Some 7 else Some 0)\<rparr>"

definition volume_P :: logical_volume where
  "volume_P = \<lparr>name = ''P'', status = 0x200000000000, visible = True, le_count = 4,
                segments = [0], segs_using_this_lv = []\<rparr>"

definition volume_O :: logical_volume where
  "volume_O = \<lparr>name = ''O'', status = 0x300, visible = True, le_count = 10,
                segments = [1], segs_using_this_lv = []\<rparr>"

definition scenario_world :: world where
  "scenario_world =
     \<lparr>lvs = [Some volume_P, Some volume_O],
      segs = [Some \<lparr>le = 0, len = 4, segtype = Some (Segtype ''cache-pool''), areas = [],
                     pool_lv = None, policy_name = None, policy_argc = 0, policy_argv = None\<rparr>,
              Some \<lparr>le = 0, len = 10, segtype = Some (Segtype ''striped''),
                     areas = [AREA_PV ''pv0'' 0], pool_lv = None, policy_name = None,
                     policy_argc = 0, policy_argv = None\<rparr>],
      trace = []\<rparr>"

text \<open>The scenario after \<open>attach(P, O)\<close>: the cached volume is volume 1.\<close>

definition cached_world :: world where
  "cached_world = snd (lv_cache_create scenario_env 0 1 scenario_world)"

subsection \<open>Vocabulary for the order of calls\<close>

text \<open>
  The events that the loop of lines 151 to 159 leaves in the trace: readings of a
  nonzero count, each followed by a sleep of five seconds, and then a last
  reading, which is zero when the loop is left (\<open>b\<close>) and a failed query
  otherwise.
\<close>

fun polling :: "lvid \<Rightarrow> bool \<Rightarrow> event list \<Rightarrow> bool" where
  "polling lv b [BlockInfo l r] = (l = lv \<and> r = (if b then Some 0 else None))"
| "polling lv b (BlockInfo l (Some d) # Sleep n # es) = (l = lv \<and> d \<noteq> 0 \<and> n = 5 \<and> polling lv b es)"
| "polling lv b _ = False"

fun is_call :: "call \<Rightarrow> event \<Rightarrow> bool" where
  "is_call c (Call c' b) = (c' = c)"
| "is_call c _ = False"

fun is_policy_info :: "lvid \<Rightarrow> event \<Rightarrow> bool" where
  "is_policy_info lv (PolicyInfo l r) = (l = lv)"
| "is_policy_info lv _ = False"

fun is_block_info :: "lvid \<Rightarrow> event \<Rightarrow> bool" where
  "is_block_info lv (BlockInfo l r) = (l = lv)"
| "is_block_info lv _ = False"

fun is_detach_pool :: "event \<Rightarrow> bool" where
  "is_detach_pool (Call (DetachPoolLv s) b) = True"
| "is_detach_pool _ = False"

fun is_set_visible :: "event \<Rightarrow> bool" where
  "is_set_visible (SetVisible l) = True"
| "is_set_visible _ = False"

fun is_resume :: "event \<Rightarrow> bool" where
  "is_resume (Call (ResumeLv l) b) = True"
| "is_resume _ = False"

fun is_activate :: "event \<Rightarrow> bool" where
  "is_activate (Call (ActivateLv l) b) = True"
| "is_activate _ = False"

fun is_remove_seg :: "lvid \<Rightarrow> event \<Rightarrow> bool" where
  "is_remove_seg ol (Call (RemoveSegFromSegsUsingThisLv l s) b) = (l = ol)"
| "is_remove_seg ol _ = False"

fun is_add_virtual :: "lvid \<Rightarrow> segment_type option \<Rightarrow> event \<Rightarrow> bool" where
  "is_add_virtual ol st (Call (LvAddVirtualSegment l f n st') b) = (l = ol \<and> f = 0 \<and> st' = st)"
| "is_add_virtual ol st _ = False"

text \<open>
  \<open>follows E lv e1 e2\<close>: in a run of \<^verbatim>\<open>lv_cache_remove\<close> on the volume \<open>lv\<close>, the
  event \<open>e2\<close> may come immediately after the event \<open>e1\<close>. Nothing comes after a
  failed call or a failed query.
\<close>

fun follows :: "env \<Rightarrow> lvid \<Rightarrow> event \<Rightarrow> event \<Rightarrow> bool" where
  "follows E lv (PolicyInfo l (Some p)) e2 =
     (if p \<noteq> ''cleaner'' then is_call VgWrite e2 else is_block_info lv e2)"
| "follows E lv (BlockInfo l (Some d)) e2 =
     (l = lv \<and> (if d \<noteq> 0 then e2 = Sleep 5 else is_detach_pool e2))"
| "follows E lv (Sleep n) e2 = is_block_info lv e2"
| "follows E lv (SetVisible ol) e2 = is_remove_seg ol e2"
| "follows E lv (Call VgWrite True) e2 = is_call (SuspendLv lv) e2"
| "follows E lv (Call (SuspendLv l) True) e2 = (l = lv \<and> is_call VgCommit e2)"
| "follows E lv (Call VgCommit True) e2 = is_call (ResumeLv lv) e2"
| "follows E lv (Call (ResumeLv l) True) e2 =
     ((l = lv \<and> (is_block_info lv e2 \<or> is_resume e2)) \<or> is_activate e2)"
| "follows E lv (Call (DetachPoolLv s) True) e2 = is_set_visible e2"
| "follows E lv (Call (RemoveSegFromSegsUsingThisLv ol s) True) e2 = is_call (MoveLvSegments lv ol) e2"
| "follows E lv (Call (MoveLvSegments l ol) True) e2 =
     is_add_virtual ol (get_segtype_from_string E ''error'') e2"
| "follows E lv (Call (LvAddVirtualSegment ol f n st) True) e2 = is_call VgWrite e2"
| "follows E lv (Call (ActivateLv ol) True) e2 = is_call (DeactivateLv ol) e2"
| "follows E lv (Call (DeactivateLv ol) True) e2 = is_call (LvRemove ol) e2"
| "follows E lv _ e2 = False"

text \<open>
  \<open>can_end r e\<close>: a run of \<^verbatim>\<open>lv_cache_remove\<close> that returns \<open>r\<close> may have \<open>e\<close> as
  its last event.
\<close>

fun can_end :: "int result \<Rightarrow> event \<Rightarrow> bool" where
  "can_end r (Call (LvRemove ol) True) = (r = Return 1)"
| "can_end r (Call (DetachPoolLv s) True) = (r = Fault)"
| "can_end r (Call (ResumeLv l) True) = (r = Fault)"
| "can_end r (Call c True) = False"
| "can_end r (Call c False) = (r = Return 0)"
| "can_end r (PolicyInfo l None) = (r = Return 0)"
| "can_end r (PolicyInfo l (Some p)) = (r = Fault \<and> p \<noteq> ''cleaner'')"
| "can_end r (BlockInfo l None) = (r = Return 0)"
| "can_end r (BlockInfo l (Some d)) = (r = Fault \<and> d = 0)"
| "can_end r (SetVisible l) = (r = Fault)"
| "can_end r (Sleep n) = False"

text \<open>
  The scenario after a detach during which the cache drains: the state reached
  from \<open>cached_world\<close> when the kernel behaves as in \<open>draining_env\<close>.
\<close>

definition drained_world :: world where
  "drained_world = snd (the (lv_cache_remove draining_env 1 cached_world))"

text \<open>The scenario after lines 161 to 185 of detach have run on \<open>cached_world\<close>.\<close>

definition promoted_world :: world where
  "promoted_world = snd (unlink_and_promote draining_env 1 cached_world)"

declare flush_wait.simps [code]


subsection \<open>Abbreviations used in the statements\<close>

text \<open>
  The cache segment after the cleaner policy is swapped in (lines 135 to 137); the
  placeholder segment that \<^verbatim>\<open>lv_add_virtual_segment\<close> adds with the "error" type; the
  hidden volume and the segment that \<^verbatim>\<open>insert_layer_for_lv\<close> creates; and the trace
  of a detach that returns 1.
\<close>

definition swap_cleaner :: "lv_segment \<Rightarrow> lv_segment" where
  "swap_cleaner s = s\<lparr>policy_name := Some ''cleaner'', policy_argc := 0, policy_argv := None\<rparr>"

definition placeholder :: "env \<Rightarrow> nat \<Rightarrow> lv_segment" where
  "placeholder E n = \<lparr>le = 0, len = n, segtype = get_segtype_from_string E ''error'', areas = [],
                       pool_lv = None, policy_name = None, policy_argc = 0, policy_argv = None\<rparr>"

definition success_trace :: "env \<Rightarrow> lvid \<Rightarrow> string \<Rightarrow> event list \<Rightarrow> segid \<Rightarrow> lvid \<Rightarrow> lvid \<Rightarrow> nat \<Rightarrow> event list" where
  "success_trace E lv pn ps seg pool ol n =
     PolicyInfo lv (Some pn)
     # (if pn \<noteq> ''cleaner''
        then [Call VgWrite True, Call (SuspendLv lv) True, Call VgCommit True,
              Call (ResumeLv lv) True]
        else [])
     @ ps
     @ [Call (DetachPoolLv seg) True, SetVisible ol,
        Call (RemoveSegFromSegsUsingThisLv ol seg) True,
        Call (MoveLvSegments lv ol) True,
        Call (LvAddVirtualSegment ol 0 n (get_segtype_from_string E ''error'')) True,
        Call VgWrite True, Call (SuspendLv lv) True, Call VgCommit True,
        Call (ResumeLv lv) True, Call (ResumeLv pool) True,
        Call (ActivateLv ol) True, Call (DeactivateLv ol) True, Call (LvRemove ol) True]"

definition layer_volume :: "logical_volume \<Rightarrow> string \<Rightarrow> segid \<Rightarrow> logical_volume" where
  "layer_volume l suffix mapseg =
     \<lparr>name = name l @ suffix, status = 0, visible = False, le_count = le_count l,
      segments = segments l, segs_using_this_lv = [mapseg]\<rparr>"

definition layer_segment :: "logical_volume \<Rightarrow> lvid \<Rightarrow> lv_segment" where
  "layer_segment l layer_lv =
     \<lparr>le = 0, len = le_count l, segtype = None, areas = [AREA_LV layer_lv], pool_lv = None,
      policy_name = None, policy_argc = 0, policy_argv = None\<rparr>"

subsection \<open>Commit cycles and failing environments\<close>

fun attempt :: "call list \<Rightarrow> event list \<Rightarrow> bool" where
  "attempt [] evs = (evs = [])"
| "attempt (c # cs) [] = False"
| "attempt (c # cs) (e # evs) = ((e = Call c False \<and> evs = []) \<or> (e = Call c True \<and> attempt cs evs))"

definition commit_fails_env :: env where
  "commit_fails_env = draining_env\<lparr>succeeds := (\<lambda>h c. c \<noteq> VgCommit)\<rparr>"

definition no_error_env :: env where
  "no_error_env = draining_env\<lparr>segtypes := [''striped'', ''cache'']\<rparr>"

definition no_cache_env :: env where
  "no_cache_env = scenario_env\<lparr>segtypes := [''striped'', ''error'']\<rparr>"

text \<open>
  The policy fields of a segment, and the relation between two states in which
  every segment of the first is still there in the second with the same policy
  fields. The scenario in which the kernel already runs the cleaner policy.
\<close>

definition policy_of :: "lv_segment \<Rightarrow> string option \<times> nat \<times> string list option" where
  "policy_of s = (policy_name s, policy_argc s, policy_argv s)"

definition keeps_policy :: "world \<Rightarrow> world \<Rightarrow> bool" where
  "keeps_policy w w' =
     (\<forall>j s. get_seg w j = Some s \<longrightarrow> (\<exists>s'. get_seg w' j = Some s' \<and> policy_of s' = policy_of s))"


section \<open>Properties\<close>

subsection \<open>The trace of each primitive\<close>

lemma trace_record_event [simp]: "trace (record_event e w) = trace w @ [e]"
  by (simp add: record_event_def)

lemma trace_put [simp]: "trace (put_lv i l w) = trace w" "trace (put_seg j s w) = trace w"
  by (simp_all add: put_lv_def put_seg_def)

lemma trace_lv_set_visible [simp]: "trace (lv_set_visible i w) = trace w @ [SetVisible i]"
  by (simp add: lv_set_visible_def split: option.splits)

lemma primitive_trace:
  assumes "\<And>u v. eff u = Some v \<Longrightarrow> trace v = trace u"
  shows "primitive E c eff w = (b, w') \<Longrightarrow> trace w' = trace w @ [Call c b]"
  using assms by (auto simp: primitive_def split: option.splits if_splits)

lemma txn_trace:
  "vg_write E w = (b, w') \<Longrightarrow> trace w' = trace w @ [Call VgWrite b]"
  "vg_commit E w = (b, w') \<Longrightarrow> trace w' = trace w @ [Call VgCommit b]"
  "suspend_lv E i w = (b, w') \<Longrightarrow> trace w' = trace w @ [Call (SuspendLv i) b]"
  "resume_lv E i w = (b, w') \<Longrightarrow> trace w' = trace w @ [Call (ResumeLv i) b]"
  "activate_lv E i w = (b, w') \<Longrightarrow> trace w' = trace w @ [Call (ActivateLv i) b]"
  "deactivate_lv E i w = (b, w') \<Longrightarrow> trace w' = trace w @ [Call (DeactivateLv i) b]"
  by (auto simp: vg_write_def vg_commit_def suspend_lv_def resume_lv_def activate_lv_def
        deactivate_lv_def dest: primitive_trace[rotated])

lemma graph_trace:
  "detach_pool_lv E s w = (b, w') \<Longrightarrow> trace w' = trace w @ [Call (DetachPoolLv s) b]"
  "remove_seg_from_segs_using_this_lv E i s w = (b, w') \<Longrightarrow>
     trace w' = trace w @ [Call (RemoveSegFromSegsUsingThisLv i s) b]"
  "lv_add_virtual_segment E i f n st w = (b, w') \<Longrightarrow>
     trace w' = trace w @ [Call (LvAddVirtualSegment i f n st) b]"
  "lv_remove E i w = (b, w') \<Longrightarrow> trace w' = trace w @ [Call (LvRemove i) b]"
  by (auto simp: detach_pool_lv_def detach_pool_effect_def remove_seg_from_segs_using_this_lv_def
        remove_seg_effect_def lv_add_virtual_segment_def add_virtual_effect_def lv_remove_def
        lv_remove_effect_def Let_def
        split: option.splits if_splits
        dest!: primitive_trace[rotated])

lemma move_trace:
  "move_lv_segments E i j w = (b, w') \<Longrightarrow>
     trace w' = trace w @ [Call (MoveLvSegments i j) b] \<and> (b \<longrightarrow> get_lv w' i \<noteq> None)"
  by (auto simp: move_lv_segments_def move_segments_effect_def primitive_def put_lv_def get_lv_def
        record_event_def split: option.splits if_splits)

lemma policy_trace:
  "lv_cache_policy_info E i w = (r, w') \<Longrightarrow> trace w' = trace w @ [PolicyInfo i r]"
  by (auto simp: lv_cache_policy_info_def Let_def)


lemma flush_wait_run_aux:
  "flush_wait E lv w = Some y \<Longrightarrow>
     \<exists>ps. trace (snd y) = trace w @ ps \<and> polling lv (fst y) ps
        \<and> lvs (snd y) = lvs w \<and> segs (snd y) = segs w"
proof (erule flush_wait.raw_induct[rotated], goal_cases)
  case (1 fw E lv w y)
  note IH = 1(1) and eq = 1(2)
  show ?case
  proof (cases "block_info E (trace w) lv")
    case None
    with eq show ?thesis
      by (auto simp: lv_cache_block_info_def record_event_def Let_def)
  next
    case (Some d)
    show ?thesis
    proof (cases "d = 0")
      case True
      with Some eq show ?thesis
        by (auto simp: lv_cache_block_info_def record_event_def Let_def)
    next
      case False
      let ?w1 = "sleep 5 (record_event (BlockInfo lv (Some d)) w)"
      from False Some eq have "\<exists>ps. trace (snd y) = trace ?w1 @ ps \<and> polling lv (fst y) ps
          \<and> lvs (snd y) = lvs ?w1 \<and> segs (snd y) = segs ?w1"
        by (intro IH) (simp add: lv_cache_block_info_def Let_def)
      then obtain ps where
        "trace (snd y) = trace ?w1 @ ps" "polling lv (fst y) ps"
        "lvs (snd y) = lvs ?w1" "segs (snd y) = segs ?w1"
        by blast
      with False show ?thesis
        by (intro exI[of _ "BlockInfo lv (Some d) # Sleep 5 # ps"])
           (simp add: sleep_def record_event_def)
    qed
  qed
qed

lemma flush_wait_run:
  "flush_wait E lv w = Some (b, w') \<Longrightarrow>
     \<exists>ps. trace w' = trace w @ ps \<and> polling lv b ps \<and> lvs w' = lvs w \<and> segs w' = segs w"
  using flush_wait_run_aux[of E lv w "(b, w')"] by simp

subsection \<open>The order of calls in \<^verbatim>\<open>lv_cache_remove\<close>\<close>

lemma polling_facts:
  "polling lv b ps \<Longrightarrow> ps \<noteq> [] \<and> is_block_info lv (hd ps)
     \<and> last ps = BlockInfo lv (if b then Some 0 else None) \<and> successively (follows E lv) ps"
  by (induction lv b ps rule: polling.induct) (auto simp: successively_Cons)

lemma swap_in_cleaner_order:
  assumes "swap_in_cleaner E lv cs w = (x, w')"
  shows "\<exists>evs. trace w' = trace w @ evs \<and> successively (follows E lv) evs
           \<and> (evs \<noteq> [] \<longrightarrow> is_call VgWrite (hd evs))
           \<and> (case x of None \<Rightarrow> evs \<noteq> [] \<and> last evs = Call (ResumeLv lv) True
                       | Some r \<Rightarrow> (evs = [] \<longrightarrow> r = Fault) \<and> (evs \<noteq> [] \<longrightarrow> can_end r (last evs) \<and> r = Return 0))"
  using assms
  apply (simp add: swap_in_cleaner_def Let_def split: option.splits prod.splits if_splits)
  apply (clarsimp dest!: txn_trace)+
  done

lemma commit_and_teardown_order:
  assumes "commit_and_teardown E lv po ol w = (r, w')"
  shows "\<exists>evs. trace w' = trace w @ evs \<and> successively (follows E lv) evs
           \<and> evs \<noteq> [] \<and> is_call VgWrite (hd evs) \<and> can_end r (last evs)"
  using assms
  apply (simp add: commit_and_teardown_def Let_def split: option.splits prod.splits if_splits)
  apply (clarsimp dest!: txn_trace graph_trace)+
  done

lemma unlink_and_promote_order:
  assumes "unlink_and_promote E lv w = (x, w')"
  shows "\<exists>evs. trace w' = trace w @ evs \<and> successively (follows E lv) evs
           \<and> (evs \<noteq> [] \<longrightarrow> is_detach_pool (hd evs))
           \<and> (case x of
                 Inr (po, ol) \<Rightarrow> evs \<noteq> [] \<and> (\<exists>f n st. last evs = Call (LvAddVirtualSegment ol f n st) True)
               | Inl r \<Rightarrow> (evs = [] \<longrightarrow> r = Fault) \<and> (evs \<noteq> [] \<longrightarrow> can_end r (last evs)))"
  using assms
  apply (simp add: unlink_and_promote_def Let_def split: option.splits prod.splits if_splits)
  apply (clarsimp dest!: move_trace graph_trace)+
  done

lemma lv_cache_remove_order:
  assumes "lv_cache_remove E lv w = Some (r, w')"
  shows "\<exists>evs. trace w' = trace w @ evs \<and> successively (follows E lv) evs
           \<and> (evs \<noteq> [] \<longrightarrow> is_policy_info lv (hd evs))
           \<and> (evs = [] \<longrightarrow> r \<noteq> Return 1) \<and> (evs \<noteq> [] \<longrightarrow> can_end r (last evs))"
  using assms
  apply (simp add: lv_cache_remove_def Let_def split: option.splits prod.splits if_splits sum.splits)
  apply (clarsimp dest!: policy_trace swap_in_cleaner_order flush_wait_run unlink_and_promote_order
           commit_and_teardown_order
         simp: successively_append_iff successively_Cons last_append
         dest!: polling_facts[where E=E]; auto)+
  done

lemma successively_adjacent:
  "successively R xs \<Longrightarrow> xs = pre @ e1 # e2 # post \<Longrightarrow> R e1 e2"
  by (simp add: successively_append_iff)

lemma lv_cache_remove_run:
  assumes "lv_cache_remove E lv w = Some (r, w')"
  shows "\<exists>evs. trace w' = trace w @ evs
           \<and> (\<forall>pre e1 e2 post. evs = pre @ e1 # e2 # post \<longrightarrow> follows E lv e1 e2)
           \<and> (\<forall>e post. evs = e # post \<longrightarrow> is_policy_info lv e)
           \<and> (\<forall>pre e. evs = pre @ [e] \<longrightarrow> can_end r e)
           \<and> (evs = [] \<longrightarrow> r \<noteq> Return 1)"
proof -
  from lv_cache_remove_order[OF assms] obtain evs where
    t: "trace w' = trace w @ evs" and s: "successively (follows E lv) evs"
    and h: "evs \<noteq> [] \<longrightarrow> is_policy_info lv (hd evs)"
    and e: "evs = [] \<longrightarrow> r \<noteq> Return 1" and l: "evs \<noteq> [] \<longrightarrow> can_end r (last evs)"
    by blast
  show ?thesis
  proof (intro exI[of _ evs] conjI allI impI)
    show "trace w' = trace w @ evs" by (rule t)
  next
    fix pre e1 e2 post assume "evs = pre @ e1 # e2 # post"
    with s show "follows E lv e1 e2" by (rule successively_adjacent)
  next
    fix e post assume "evs = e # post"
    with h show "is_policy_info lv e" by simp
  next
    fix pre e assume "evs = pre @ [e]"
    with l show "can_end r e" by simp
  next
    assume "evs = []" with e show "r \<noteq> Return 1" by simp
  qed
qed

lemma drained_run:
  "lv_cache_remove draining_env 1 cached_world = Some (Return 1, drained_world)"
proof -
  have "(case lv_cache_remove draining_env 1 cached_world of
           Some (Return n, _) \<Rightarrow> n = 1 | _ \<Rightarrow> False)"
    by code_simp
  then show ?thesis
    by (auto simp: drained_world_def split: option.splits result.splits)
qed

lemma cached_run:
  "lv_cache_create scenario_env 0 1 scenario_world = (Return (Some 1), cached_world)"
proof -
  have "fst (lv_cache_create scenario_env 0 1 scenario_world) = Return (Some 1)"
    by code_simp
  then show ?thesis by (simp add: cached_world_def prod_eq_iff)
qed


lemma scenario_volumes:
  "get_lv scenario_world 0 = Some volume_P" "get_lv scenario_world 1 = Some volume_O"
  by (simp_all add: scenario_world_def get_lv_def)

subsection \<open>Precondition violations\<close>

text \<open>
  Claim C8. A precondition violation is reported at once and changes nothing:
  attach with a pool that is not a cache pool returns NULL and leaves the state
  (graph and trace) as it was; attach with an origin that is already of cache type
  does the same; detach of a volume that is not CACHE-tagged returns 0 and leaves
  the state as it was. The volumes handed in are live objects.
\<close>

theorem precondition_violation_no_effect:
  "(get_lv w pool = Some p \<and> \<not> lv_is_cache_pool E p
      \<longrightarrow> lv_cache_create E pool origin w = (Return None, w)) \<and>
   (get_lv w pool = Some p \<and> get_lv w origin = Some orig \<and> lv_is_cache_type E orig
      \<longrightarrow> lv_cache_create E pool origin w = (Return None, w)) \<and>
   (get_lv w cache_lv = Some c \<and> \<not> lv_is_cache E c
      \<longrightarrow> lv_cache_remove E cache_lv w = Some (Return 0, w))"
  by (simp add: lv_cache_create_def lv_cache_remove_def)

theorem precondition_violation_no_effect_witness:
  "(get_lv scenario_world 1 = Some volume_O \<and> \<not> lv_is_cache_pool scenario_env volume_O
      \<and> lv_cache_create scenario_env 1 1 scenario_world = (Return None, scenario_world)) \<and>
   (get_lv scenario_world 0 = Some volume_P \<and> lv_is_cache_type scenario_env volume_P
      \<and> lv_cache_create scenario_env 0 0 scenario_world = (Return None, scenario_world)) \<and>
   (\<not> lv_is_cache scenario_env volume_O
      \<and> lv_cache_remove scenario_env 1 scenario_world = Some (Return 0, scenario_world))"
proof -
  have a: "get_lv scenario_world 1 = Some volume_O"
    and b: "get_lv scenario_world 0 = Some volume_P"
    by (simp_all add: scenario_world_def get_lv_def)
  have c: "\<not> lv_is_cache_pool scenario_env volume_O"
    and d: "lv_is_cache_type scenario_env volume_P"
    and e: "\<not> lv_is_cache scenario_env volume_O"
    by (simp_all add: scenario_env_def volume_O_def volume_P_def lv_is_cache_pool_def
          lv_is_cache_type_def lv_is_cache_def)
  show ?thesis
    using a b c d e
      precondition_violation_no_effect[of scenario_world 1 volume_O scenario_env 1 volume_O 1 volume_O]
      precondition_violation_no_effect[of scenario_world 0 volume_P scenario_env 0 volume_P 0 volume_P]
    by simp
qed

subsection \<open>The flush precedes the unlinking of the pool\<close>

lemma follows_detach:
  "follows E lv e1 (Call (DetachPoolLv s) b) \<Longrightarrow> e1 = BlockInfo lv (Some 0)"
  by (cases "(E, lv, e1, Call (DetachPoolLv s) b)" rule: follows.cases) (auto split: if_splits)

lemma follows_sleep:
  "follows E lv e1 (Sleep n) \<Longrightarrow> \<exists>d. e1 = BlockInfo lv (Some d) \<and> d \<noteq> 0"
  by (cases "(E, lv, e1, Sleep n)" rule: follows.cases) (auto split: if_splits)

text \<open>
  Claim C1. In every run of detach that returns, the call that unlinks the pool
  comes immediately after a reading of the dirty-block count that is exactly zero;
  every nonzero reading is followed by a sleep of five seconds and then by another
  query; and a sleep happens only after a nonzero reading.
\<close>

theorem pool_unlinked_only_after_zero_dirty_blocks:
  assumes "lv_cache_remove E cache_lv w = Some (r, w')"
  shows "\<exists>evs. trace w' = trace w @ evs \<and>
     (\<forall>pre s b post. evs = pre @ Call (DetachPoolLv s) b # post
        \<longrightarrow> (\<exists>pre'. pre = pre' @ [BlockInfo cache_lv (Some 0)])) \<and>
     (\<forall>pre l d post. evs = pre @ BlockInfo l (Some d) # post \<and> d \<noteq> 0
        \<longrightarrow> (\<exists>r' post'. post = Sleep 5 # BlockInfo cache_lv r' # post')) \<and>
     (\<forall>pre n post. evs = pre @ Sleep n # post
        \<longrightarrow> (\<exists>pre' d. pre = pre' @ [BlockInfo cache_lv (Some d)] \<and> d \<noteq> 0))"
proof -
  from lv_cache_remove_run[OF assms] obtain evs where
    t: "trace w' = trace w @ evs"
    and adj: "\<And>pre e1 e2 post. evs = pre @ e1 # e2 # post \<Longrightarrow> follows E cache_lv e1 e2"
    and first: "\<And>e post. evs = e # post \<Longrightarrow> is_policy_info cache_lv e"
    and final: "\<And>pre e. evs = pre @ [e] \<Longrightarrow> can_end r e"
    by blast
  have a: "\<exists>pre'. pre = pre' @ [BlockInfo cache_lv (Some 0)]"
    if eq: "evs = pre @ Call (DetachPoolLv s) b # post" for pre s b post
  proof (cases pre rule: rev_cases)
    case Nil
    with eq first[of "Call (DetachPoolLv s) b" post] show ?thesis by simp
  next
    case (snoc pre' e1)
    with eq adj[of pre' e1 "Call (DetachPoolLv s) b" post]
    have "follows E cache_lv e1 (Call (DetachPoolLv s) b)" by simp
    from follows_detach[OF this] snoc show ?thesis by simp
  qed
  have b: "\<exists>r' post'. post = Sleep 5 # BlockInfo cache_lv r' # post'"
    if eq: "evs = pre @ BlockInfo l (Some d) # post" and d: "d \<noteq> 0" for pre l d post
  proof (cases post)
    case Nil
    with eq final[of pre "BlockInfo l (Some d)"] d show ?thesis by simp
  next
    case (Cons e2 post2)
    with eq adj[of pre "BlockInfo l (Some d)" e2 post2] d have e2: "e2 = Sleep 5" by simp
    show ?thesis
    proof (cases post2)
      case Nil
      with eq Cons e2 final[of "pre @ [BlockInfo l (Some d)]" "Sleep 5"] show ?thesis by simp
    next
      case (Cons e3 post3)
      with eq \<open>post = e2 # post2\<close> e2 adj[of "pre @ [BlockInfo l (Some d)]" "Sleep 5" e3 post3]
      have "is_block_info cache_lv e3" by simp
      then obtain r' where "e3 = BlockInfo cache_lv r'" by (cases e3) auto
      with Cons \<open>post = e2 # post2\<close> e2 show ?thesis by simp
    qed
  qed
  have c: "\<exists>pre' d. pre = pre' @ [BlockInfo cache_lv (Some d)] \<and> d \<noteq> 0"
    if eq: "evs = pre @ Sleep n # post" for pre n post
  proof (cases pre rule: rev_cases)
    case Nil
    with eq first[of "Sleep n" post] show ?thesis by simp
  next
    case (snoc pre' e1)
    with eq adj[of pre' e1 "Sleep n" post] have "follows E cache_lv e1 (Sleep n)" by simp
    from follows_sleep[OF this] snoc show ?thesis by auto
  qed
  from t a b c show ?thesis by blast
qed

theorem pool_unlinked_only_after_zero_dirty_blocks_witness:
  "lv_cache_remove draining_env 1 cached_world = Some (Return 1, drained_world) \<and>
   (\<exists>evs. trace drained_world = trace cached_world @ evs \<and>
     (\<forall>pre s b post. evs = pre @ Call (DetachPoolLv s) b # post
        \<longrightarrow> (\<exists>pre'. pre = pre' @ [BlockInfo 1 (Some 0)])) \<and>
     (\<forall>pre l d post. evs = pre @ BlockInfo l (Some d) # post \<and> d \<noteq> 0
        \<longrightarrow> (\<exists>r' post'. post = Sleep 5 # BlockInfo 1 r' # post')) \<and>
     (\<forall>pre n post. evs = pre @ Sleep n # post
        \<longrightarrow> (\<exists>pre' d. pre = pre' @ [BlockInfo 1 (Some d)] \<and> d \<noteq> 0)))"
  using drained_run pool_unlinked_only_after_zero_dirty_blocks[OF drained_run] by simp

subsection \<open>The effect of each primitive on volumes and segments\<close>

lemma txn_effect:
  "vg_write E w = (b, w') \<Longrightarrow>
     trace w' = trace w @ [Call VgWrite b] \<and> lvs w' = lvs w \<and> segs w' = segs w"
  "vg_commit E w = (b, w') \<Longrightarrow>
     trace w' = trace w @ [Call VgCommit b] \<and> lvs w' = lvs w \<and> segs w' = segs w"
  "suspend_lv E i w = (b, w') \<Longrightarrow>
     trace w' = trace w @ [Call (SuspendLv i) b] \<and> lvs w' = lvs w \<and> segs w' = segs w"
  "resume_lv E i w = (b, w') \<Longrightarrow>
     trace w' = trace w @ [Call (ResumeLv i) b] \<and> lvs w' = lvs w \<and> segs w' = segs w"
  "activate_lv E i w = (b, w') \<Longrightarrow>
     trace w' = trace w @ [Call (ActivateLv i) b] \<and> lvs w' = lvs w \<and> segs w' = segs w"
  "deactivate_lv E i w = (b, w') \<Longrightarrow>
     trace w' = trace w @ [Call (DeactivateLv i) b] \<and> lvs w' = lvs w \<and> segs w' = segs w"
  by (auto simp: vg_write_def vg_commit_def suspend_lv_def resume_lv_def activate_lv_def
        deactivate_lv_def primitive_def record_event_def split: if_splits)

lemma swap_in_cleaner_result:
  assumes "swap_in_cleaner E lv cs w = (x, w')"
  shows "lvs w' = lvs w"
    and "cs = Some c \<Longrightarrow> get_seg w c = Some s \<Longrightarrow> segs w' = (segs w)[c := Some (swap_cleaner s)]"
    and "x = None \<Longrightarrow> (\<exists>c s. cs = Some c \<and> get_seg w c = Some s)
           \<and> trace w' = trace w @ [Call VgWrite True, Call (SuspendLv lv) True,
                                     Call VgCommit True, Call (ResumeLv lv) True]"
  using assms
  by (simp add: swap_in_cleaner_def Let_def split: option.splits prod.splits if_splits;
      clarsimp dest!: txn_effect simp: put_seg_def swap_cleaner_def)+

lemma lv_remove_effect_result:
  "lv_remove E i w = (b, w') \<Longrightarrow>
     trace w' = trace w @ [Call (LvRemove i) b] \<and>
     (if b then \<exists>h. get_lv w i = Some h \<and> lvs w' = (lvs w)[i := None]
                  \<and> segs w' = free_segs (segments h) (segs w)
      else lvs w' = lvs w \<and> segs w' = segs w)"
  by (auto simp: lv_remove_def lv_remove_effect_def primitive_def record_event_def
        split: option.splits if_splits)

lemma commit_and_teardown_result:
  assumes "commit_and_teardown E lv po ol w = (r, w')"
  shows "(r = Return 1 \<longrightarrow>
            (\<exists>pool h. po = Some pool \<and> get_lv w ol = Some h \<and> lvs w' = (lvs w)[ol := None]
               \<and> segs w' = free_segs (segments h) (segs w)
               \<and> trace w' = trace w @ [Call VgWrite True, Call (SuspendLv lv) True,
                    Call VgCommit True, Call (ResumeLv lv) True, Call (ResumeLv pool) True,
                    Call (ActivateLv ol) True, Call (DeactivateLv ol) True,
                    Call (LvRemove ol) True]))
       \<and> (r \<noteq> Return 1 \<longrightarrow> lvs w' = lvs w \<and> segs w' = segs w)"
  using assms
  apply (simp add: commit_and_teardown_def Let_def split: option.splits prod.splits if_splits)
  apply (clarsimp dest!: txn_effect lv_remove_effect_result simp: get_lv_def split: if_splits)+
  done

lemma get_record_event [simp]:
  "get_lv (record_event e w) = get_lv w" "get_seg (record_event e w) = get_seg w"
  "lvs (record_event e w) = lvs w" "segs (record_event e w) = segs w"
  by (auto simp: get_lv_def get_seg_def record_event_def)

lemma get_lv_put_seg [simp]: "get_lv (put_seg j s w) = get_lv w" "lvs (put_seg j s w) = lvs w"
  by (auto simp: get_lv_def put_seg_def)

lemma get_seg_put_lv [simp]: "get_seg (put_lv i l w) = get_seg w" "segs (put_lv i l w) = segs w"
  by (auto simp: get_seg_def put_lv_def)

lemma length_put [simp]:
  "length (lvs (put_lv i l w)) = length (lvs w)" "length (segs (put_seg j s w)) = length (segs w)"
  by (simp_all add: put_lv_def put_seg_def)

lemma get_lv_put_lv: "get_lv w i \<noteq> None \<Longrightarrow> get_lv (put_lv i l w) = (get_lv w)(i \<mapsto> l)"
  by (rule ext) (auto simp: get_lv_def put_lv_def split: if_splits)

lemma get_seg_put_seg: "get_seg w j \<noteq> None \<Longrightarrow> get_seg (put_seg j s w) = (get_seg w)(j \<mapsto> s)"
  by (rule ext) (auto simp: get_seg_def put_seg_def split: if_splits)

lemma get_lv_valid: "get_lv w i = Some l \<Longrightarrow> i < length (lvs w)"
  by (simp add: get_lv_def split: if_splits)

lemma get_seg_valid: "get_seg w j = Some s \<Longrightarrow> j < length (segs w)"
  by (simp add: get_seg_def split: if_splits)

lemma detach_pool_ok:
  "detach_pool_lv E seg w = (True, w') \<Longrightarrow>
     \<exists>s pool p. get_seg w seg = Some s \<and> pool_lv s = Some pool \<and> get_lv w pool = Some p
       \<and> get_lv w' = (get_lv w)(pool \<mapsto> p\<lparr>segs_using_this_lv := remove1 seg (segs_using_this_lv p)\<rparr>)
       \<and> get_seg w' = (get_seg w)(seg \<mapsto> s\<lparr>pool_lv := None\<rparr>)
       \<and> length (lvs w') = length (lvs w) \<and> length (segs w') = length (segs w)
       \<and> trace w' = trace w @ [Call (DetachPoolLv seg) True]"
  by (auto simp: detach_pool_lv_def detach_pool_effect_def primitive_def get_lv_put_lv
        get_seg_put_seg split: option.splits if_splits)

lemma remove_seg_ok:
  "remove_seg_from_segs_using_this_lv E i seg w = (True, w') \<Longrightarrow>
     \<exists>l. get_lv w i = Some l
       \<and> get_lv w' = (get_lv w)(i \<mapsto> l\<lparr>segs_using_this_lv := remove1 seg (segs_using_this_lv l)\<rparr>)
       \<and> get_seg w' = get_seg w
       \<and> length (lvs w') = length (lvs w) \<and> length (segs w') = length (segs w)
       \<and> trace w' = trace w @ [Call (RemoveSegFromSegsUsingThisLv i seg) True]"
  by (auto simp: remove_seg_from_segs_using_this_lv_def remove_seg_effect_def primitive_def
        get_lv_put_lv split: option.splits if_splits)

lemma move_ok:
  "move_lv_segments E lv_to lv_from w = (True, w') \<Longrightarrow>
     \<exists>t f. get_lv w lv_to = Some t \<and> get_lv w lv_from = Some f \<and> lv_to \<noteq> lv_from
       \<and> get_lv w' = (get_lv w)(lv_to \<mapsto> t\<lparr>segments := segments f, le_count := le_count f\<rparr>,
                                  lv_from \<mapsto> f\<lparr>segments := [], le_count := 0\<rparr>)
       \<and> get_seg w' = get_seg w
       \<and> length (lvs w') = length (lvs w) \<and> length (segs w') = length (segs w)
       \<and> trace w' = trace w @ [Call (MoveLvSegments lv_to lv_from) True]"
  by (auto simp: move_lv_segments_def move_segments_effect_def primitive_def
        get_lv_put_lv split: option.splits if_splits)

lemma add_virtual_ok:
  "lv_add_virtual_segment E i f n st w = (True, w') \<Longrightarrow>
     \<exists>l. get_lv w i = Some l
       \<and> get_lv w' = (get_lv w)(i \<mapsto> l\<lparr>segments := segments l @ [length (segs w)],
                                           le_count := le_count l + n\<rparr>)
       \<and> get_seg w' = (get_seg w)(length (segs w) \<mapsto>
             \<lparr>le = le_count l, len = n, segtype = st, areas = [], pool_lv = None,
              policy_name = None, policy_argc = 0, policy_argv = None\<rparr>)
       \<and> length (lvs w') = length (lvs w) \<and> length (segs w') = Suc (length (segs w))
       \<and> trace w' = trace w @ [Call (LvAddVirtualSegment i f n st) True]"
  apply (clarsimp simp: lv_add_virtual_segment_def add_virtual_effect_def primitive_def
        split: option.splits if_splits)
  apply (intro conjI ext)
   apply (auto simp: get_lv_def get_seg_def nth_append split: if_splits)
  done

lemma set_visible_effect:
  "get_lv w i = Some l \<Longrightarrow>
     get_lv (lv_set_visible i w) = (get_lv w)(i \<mapsto> l\<lparr>visible := True\<rparr>)
     \<and> get_seg (lv_set_visible i w) = get_seg w
     \<and> length (lvs (lv_set_visible i w)) = length (lvs w)
     \<and> length (segs (lv_set_visible i w)) = length (segs w)"
  by (simp add: lv_set_visible_def get_lv_put_lv)

lemma set_visible_invalid:
  "get_lv w i = None \<Longrightarrow> get_lv (lv_set_visible i w) = get_lv w
     \<and> get_seg (lv_set_visible i w) = get_seg w"
  by (simp add: lv_set_visible_def)

lemma get_lv_set_visible:
  "get_lv (lv_set_visible i w) =
     (case get_lv w i of None \<Rightarrow> get_lv w | Some l \<Rightarrow> (get_lv w)(i \<mapsto> l\<lparr>visible := True\<rparr>))"
  "get_seg (lv_set_visible i w) = get_seg w"
  "length (lvs (lv_set_visible i w)) = length (lvs w)"
  "length (segs (lv_set_visible i w)) = length (segs w)"
  by (auto simp: lv_set_visible_def get_lv_put_lv split: option.splits)

lemma seg_lv_pool_update [simp]: "seg_lv (s\<lparr>pool_lv := x\<rparr>) n = seg_lv s n"
  by (simp add: seg_lv_def)

lemma unlink_and_promote_result:
  assumes "unlink_and_promote E lv w = (Inr (po, ol), w')"
  shows "\<exists>seg s pool c h p.
           first_seg w lv = Some seg \<and> get_seg w seg = Some s \<and> pool_lv s = Some pool
         \<and> po = Some pool \<and> seg_lv s 0 = Some ol \<and> ol \<noteq> lv
         \<and> get_lv w lv = Some c \<and> get_lv w ol = Some h \<and> get_lv w pool = Some p
         \<and> trace w' = trace w @ [Call (DetachPoolLv seg) True, SetVisible ol,
               Call (RemoveSegFromSegsUsingThisLv ol seg) True,
               Call (MoveLvSegments lv ol) True,
               Call (LvAddVirtualSegment ol 0 (le_count h) (get_segtype_from_string E ''error'')) True]
         \<and> get_seg w' = (get_seg w)(seg \<mapsto> s\<lparr>pool_lv := None\<rparr>,
                                      length (segs w) \<mapsto> placeholder E (le_count h))
         \<and> length (segs w') = Suc (length (segs w))
         \<and> length (lvs w') = length (lvs w)
         \<and> (\<forall>i. i \<noteq> lv \<and> i \<noteq> ol \<and> i \<noteq> pool \<longrightarrow> get_lv w' i = get_lv w i)
         \<and> (\<exists>c'. get_lv w' lv = Some c' \<and> name c' = name c \<and> visible c' = visible c
                \<and> status c' = status c AND NOT (CACHE E)
                \<and> segments c' = segments h \<and> le_count c' = le_count h)
         \<and> (\<exists>h'. get_lv w' ol = Some h' \<and> name h' = name h \<and> visible h' \<and> status h' = status h
                \<and> segments h' = [length (segs w)] \<and> le_count h' = le_count h)
         \<and> (\<exists>p'. get_lv w' pool = Some p' \<and> name p' = name p
                \<and> (pool \<noteq> lv \<and> pool \<noteq> ol \<longrightarrow>
                     p' = p\<lparr>segs_using_this_lv := remove1 seg (segs_using_this_lv p)\<rparr>))"
  using assms
  apply (simp add: unlink_and_promote_def Let_def split: option.splits prod.splits if_splits)
  apply (clarsimp dest!: detach_pool_ok remove_seg_ok move_ok add_virtual_ok
      simp: first_seg_def get_lv_put_lv get_lv_set_visible placeholder_def
      split: option.splits list.splits if_splits)
  done

lemma get_lv_cong: "lvs a = lvs b \<Longrightarrow> get_lv a = get_lv b"
  by (rule ext) (simp add: get_lv_def)

lemma get_seg_cong: "segs a = segs b \<Longrightarrow> get_seg a = get_seg b"
  by (rule ext) (simp add: get_seg_def)

lemma first_seg_cong: "get_lv a i = get_lv b i \<Longrightarrow> first_seg a i = first_seg b i"
  by (simp add: first_seg_def)

lemma get_seg_update: "get_seg (w\<lparr>segs := (segs w)[j := x]\<rparr>) = (if j < length (segs w) then (get_seg w)(j := x) else get_seg w)"
  by (rule ext) (auto simp: get_seg_def)

lemma get_lv_remove:
  "get_lv (w\<lparr>lvs := (lvs w)[i := None], segs := ss\<rparr>) = (get_lv w)(i := None)"
  by (rule ext) (auto simp: get_lv_def)

lemma swap_in_cleaner_not_success:
  "swap_in_cleaner E lv cs w = (Some r, w') \<Longrightarrow> r \<noteq> Return 1"
  by (simp add: swap_in_cleaner_def Let_def split: option.splits prod.splits if_splits; clarsimp)

lemma unlink_and_promote_not_success:
  "unlink_and_promote E lv w = (Inl r, w') \<Longrightarrow> r \<noteq> Return 1"
  by (simp add: unlink_and_promote_def Let_def split: option.splits prod.splits if_splits; clarsimp)

lemma lv_cache_remove_success:
  assumes "lv_cache_remove E lv w = Some (Return 1, w')"
  shows "\<exists>c p w1 w2 w3 w9 po ol.
           get_lv w lv = Some c \<and> lv_is_cache E c
         \<and> lv_cache_policy_info E lv w = (Some p, w1)
         \<and> (if p \<noteq> ''cleaner'' then swap_in_cleaner E lv (first_seg w lv) w1 = (None, w2)
             else w2 = w1)
         \<and> flush_wait E lv w2 = Some (True, w3)
         \<and> unlink_and_promote E lv w3 = (Inr (po, ol), w9)
         \<and> commit_and_teardown E lv po ol w9 = (Return 1, w')"
  using assms
  by (simp add: lv_cache_remove_def Let_def split: option.splits prod.splits if_splits sum.splits;
      clarsimp dest!: swap_in_cleaner_not_success unlink_and_promote_not_success)

lemma policy_effect:
  "lv_cache_policy_info E i w = (r, w') \<Longrightarrow>
     r = policy_info E (trace w) i \<and> trace w' = trace w @ [PolicyInfo i r]
     \<and> lvs w' = lvs w \<and> segs w' = segs w"
  by (auto simp: lv_cache_policy_info_def Let_def)

lemma get_seg_list_update:
  "j < length ss \<Longrightarrow> segs a = ss[j := Some x] \<Longrightarrow> segs b = ss \<Longrightarrow> get_seg a = (get_seg b)(j \<mapsto> x)"
  by (rule ext) (auto simp: get_seg_def)

lemma seg_lv_swap_cleaner [simp]: "seg_lv (swap_cleaner s) n = seg_lv s n"
  by (simp add: seg_lv_def swap_cleaner_def)

lemma pool_lv_swap_cleaner [simp]: "pool_lv (swap_cleaner s) = pool_lv s"
  by (simp add: swap_cleaner_def)


text \<open>The state in which the flush phase hands over to the graph surgery.\<close>

lemma flush_phase_state:
  assumes pi: "lv_cache_policy_info E lv w = (Some pn, w1)"
    and sw: "if pn \<noteq> ''cleaner'' then swap_in_cleaner E lv (first_seg w lv) w1 = (None, w2)
             else w2 = w1"
    and fw: "flush_wait E lv w2 = Some (True, w3)"
    and seg: "first_seg w3 lv = Some seg" "get_seg w3 seg = Some s3"
  shows "\<exists>s ps. get_lv w3 = get_lv w \<and> first_seg w lv = Some seg \<and> get_seg w seg = Some s
           \<and> s3 = (if pn \<noteq> ''cleaner'' then swap_cleaner s else s)
           \<and> get_seg w3 = (get_seg w)(seg \<mapsto> s3) \<and> length (segs w3) = length (segs w)
           \<and> length (lvs w3) = length (lvs w)
           \<and> polling lv True ps
           \<and> trace w3 = trace w @ PolicyInfo lv (Some pn)
                 # (if pn \<noteq> ''cleaner''
                    then [Call VgWrite True, Call (SuspendLv lv) True, Call VgCommit True,
                          Call (ResumeLv lv) True]
                    else []) @ ps"
proof -
  from policy_effect[OF pi] have w1: "trace w1 = trace w @ [PolicyInfo lv (Some pn)]"
    "lvs w1 = lvs w" "segs w1 = segs w" by simp_all
  from flush_wait_run[OF fw] obtain ps where ps: "trace w3 = trace w2 @ ps" "polling lv True ps"
    "lvs w3 = lvs w2" "segs w3 = segs w2" by blast
  show ?thesis
  proof (cases "pn = ''cleaner''")
    case True
    with sw have "w2 = w1" by simp
    with w1 ps have l: "lvs w3 = lvs w" and g: "segs w3 = segs w"
      and t: "trace w3 = trace w @ PolicyInfo lv (Some pn) # ps" by simp_all
    from l have gl: "get_lv w3 = get_lv w" by (rule get_lv_cong)
    from g have gs: "get_seg w3 = get_seg w" by (rule get_seg_cong)
    from gl seg(1) have "first_seg w lv = Some seg" by (simp add: first_seg_def)
    with True gl gs seg(2) l g t ps(2) show ?thesis by auto
  next
    case False
    with sw have sw': "swap_in_cleaner E lv (first_seg w lv) w1 = (None, w2)" by simp
    from swap_in_cleaner_result(3)[OF sw'] obtain c s where
      cs: "first_seg w lv = Some c" "get_seg w1 c = Some s"
      and t2: "trace w2 = trace w1 @ [Call VgWrite True, Call (SuspendLv lv) True,
                 Call VgCommit True, Call (ResumeLv lv) True]" by auto
    from swap_in_cleaner_result(1)[OF sw'] have l2: "lvs w2 = lvs w1" .
    from swap_in_cleaner_result(2)[OF sw' cs] have g2: "segs w2 = (segs w1)[c := Some (swap_cleaner s)]" .
    from l2 w1 ps have l: "lvs w3 = lvs w" by simp
    then have gl: "get_lv w3 = get_lv w" by (rule get_lv_cong)
    with seg(1) cs(1) have c: "c = seg" by (simp add: first_seg_def)
    from w1 have "get_seg w1 = get_seg w" by (intro get_seg_cong) simp
    with cs(2) c have s: "get_seg w seg = Some s" by simp
    then have v: "seg < length (segs w)" by (rule get_seg_valid)
    from g2 ps w1 c have g: "segs w3 = (segs w)[seg := Some (swap_cleaner s)]" by simp
    with v have gs: "get_seg w3 = (get_seg w)(seg \<mapsto> swap_cleaner s)"
      by (intro get_seg_list_update[of seg "segs w"]) simp_all
    with seg(2) have s3: "s3 = swap_cleaner s" by simp
    from t2 w1 ps have t: "trace w3 = trace w @ PolicyInfo lv (Some pn)
        # [Call VgWrite True, Call (SuspendLv lv) True, Call VgCommit True,
           Call (ResumeLv lv) True] @ ps" by simp
    from False gl cs(1) c s s3 gs g l t ps(2) show ?thesis by auto
  qed
qed

lemma lv_cache_remove_success_state:
  assumes run: "lv_cache_remove E lv w = Some (Return 1, w')"
  shows "\<exists>seg s pool ol c h p pn ps.
      first_seg w lv = Some seg \<and> get_seg w seg = Some s \<and> pool_lv s = Some pool
    \<and> seg_lv s 0 = Some ol \<and> ol \<noteq> lv
    \<and> get_lv w lv = Some c \<and> lv_is_cache E c \<and> get_lv w ol = Some h \<and> get_lv w pool = Some p
    \<and> polling lv True ps
    \<and> trace w' = trace w @ success_trace E lv pn ps seg pool ol (le_count h)
    \<and> (\<exists>c'. get_lv w' lv = Some c' \<and> name c' = name c \<and> visible c' = visible c
           \<and> status c' = status c AND NOT (CACHE E)
           \<and> segments c' = segments h \<and> le_count c' = le_count h)
    \<and> get_lv w' ol = None
    \<and> (pool \<noteq> ol \<longrightarrow> (\<exists>p'. get_lv w' pool = Some p' \<and> name p' = name p
           \<and> (pool \<noteq> lv \<longrightarrow>
                p' = p\<lparr>segs_using_this_lv := remove1 seg (segs_using_this_lv p)\<rparr>)))
    \<and> (\<forall>i. i \<noteq> lv \<and> i \<noteq> ol \<and> i \<noteq> pool \<longrightarrow> get_lv w' i = get_lv w i)
    \<and> get_seg w' seg = Some ((if pn \<noteq> ''cleaner'' then swap_cleaner s else s)\<lparr>pool_lv := None\<rparr>)
    \<and> (\<forall>j. j \<noteq> seg \<and> j < length (segs w) \<longrightarrow> get_seg w' j = get_seg w j)
    \<and> get_seg w' (length (segs w)) = None"
proof -
  from lv_cache_remove_success[OF run] obtain c pn w1 w2 w3 w9 po ol where
    c: "get_lv w lv = Some c" "lv_is_cache E c"
    and pi: "lv_cache_policy_info E lv w = (Some pn, w1)"
    and sw: "if pn \<noteq> ''cleaner'' then swap_in_cleaner E lv (first_seg w lv) w1 = (None, w2)
             else w2 = w1"
    and fw: "flush_wait E lv w2 = Some (True, w3)"
    and un: "unlink_and_promote E lv w3 = (Inr (po, ol), w9)"
    and ct: "commit_and_teardown E lv po ol w9 = (Return 1, w')"
    by blast
  from unlink_and_promote_result[OF un] obtain seg s3 pool c3 h p where
    u: "first_seg w3 lv = Some seg" "get_seg w3 seg = Some s3" "pool_lv s3 = Some pool"
       "po = Some pool" "seg_lv s3 0 = Some ol" "ol \<noteq> lv"
       "get_lv w3 lv = Some c3" "get_lv w3 ol = Some h" "get_lv w3 pool = Some p"
    and t9: "trace w9 = trace w3 @ [Call (DetachPoolLv seg) True, SetVisible ol,
               Call (RemoveSegFromSegsUsingThisLv ol seg) True,
               Call (MoveLvSegments lv ol) True,
               Call (LvAddVirtualSegment ol 0 (le_count h) (get_segtype_from_string E ''error'')) True]"
    and g9: "get_seg w9 = (get_seg w3)(seg \<mapsto> s3\<lparr>pool_lv := None\<rparr>,
                                      length (segs w3) \<mapsto> placeholder E (le_count h))"
    and n9: "length (segs w9) = Suc (length (segs w3))" "length (lvs w9) = length (lvs w3)"
    and f9: "\<forall>i. i \<noteq> lv \<and> i \<noteq> ol \<and> i \<noteq> pool \<longrightarrow> get_lv w9 i = get_lv w3 i"
    and c9: "\<exists>c'. get_lv w9 lv = Some c' \<and> name c' = name c3 \<and> visible c' = visible c3
                \<and> status c' = status c3 AND NOT (CACHE E)
                \<and> segments c' = segments h \<and> le_count c' = le_count h"
    and h9: "\<exists>h'. get_lv w9 ol = Some h' \<and> name h' = name h \<and> visible h' \<and> status h' = status h
                \<and> segments h' = [length (segs w3)] \<and> le_count h' = le_count h"
    and p9: "\<exists>p'. get_lv w9 pool = Some p' \<and> name p' = name p
                \<and> (pool \<noteq> lv \<and> pool \<noteq> ol \<longrightarrow>
                     p' = p\<lparr>segs_using_this_lv := remove1 seg (segs_using_this_lv p)\<rparr>)"
    by blast
  from flush_phase_state[OF pi sw fw u(1,2)] obtain s ps where
    f: "get_lv w3 = get_lv w" "first_seg w lv = Some seg" "get_seg w seg = Some s"
       "s3 = (if pn \<noteq> ''cleaner'' then swap_cleaner s else s)"
       "get_seg w3 = (get_seg w)(seg \<mapsto> s3)" "length (segs w3) = length (segs w)"
       "length (lvs w3) = length (lvs w)" "polling lv True ps"
    and t3: "trace w3 = trace w @ PolicyInfo lv (Some pn)
                 # (if pn \<noteq> ''cleaner''
                    then [Call VgWrite True, Call (SuspendLv lv) True, Call VgCommit True,
                          Call (ResumeLv lv) True]
                    else []) @ ps"
    by blast
  from h9 obtain h' where h': "get_lv w9 ol = Some h'" "segments h' = [length (segs w3)]" by blast
  from commit_and_teardown_result[OF ct] u(4) h' have
    l': "lvs w' = (lvs w9)[ol := None]" and s': "segs w' = free_segs [length (segs w3)] (segs w9)"
    and t': "trace w' = trace w9 @ [Call VgWrite True, Call (SuspendLv lv) True,
                    Call VgCommit True, Call (ResumeLv lv) True, Call (ResumeLv pool) True,
                    Call (ActivateLv ol) True, Call (DeactivateLv ol) True,
                    Call (LvRemove ol) True]"
    by auto
  have gl': "get_lv w' = (get_lv w9)(ol := None)"
    by (rule ext) (auto simp: get_lv_def l')
  have gs': "get_seg w' = (get_seg w9)(length (segs w3) := None)"
    by (rule ext) (auto simp: get_seg_def s' free_segs_def)
  from get_seg_valid[OF f(3)] have v: "seg < length (segs w)" .
  have tr: "trace w' = trace w @ success_trace E lv pn ps seg pool ol (le_count h)"
    by (simp add: t' t9 t3 success_trace_def)
  from u f have "pool_lv s = Some pool" "seg_lv s 0 = Some ol" by (auto split: if_splits)
  moreover from u(7,8,9) f(1) c have "c3 = c" "get_lv w ol = Some h" "get_lv w pool = Some p" by simp_all
  moreover from c9 gl' u(6) \<open>c3 = c\<close> have
    "\<exists>c'. get_lv w' lv = Some c' \<and> name c' = name c \<and> visible c' = visible c
           \<and> status c' = status c AND NOT (CACHE E)
           \<and> segments c' = segments h \<and> le_count c' = le_count h" by simp
  moreover from gl' have "get_lv w' ol = None" by simp
  moreover from p9 gl' have "pool \<noteq> ol \<longrightarrow> (\<exists>p'. get_lv w' pool = Some p' \<and> name p' = name p
           \<and> (pool \<noteq> lv \<longrightarrow>
                p' = p\<lparr>segs_using_this_lv := remove1 seg (segs_using_this_lv p)\<rparr>))" by auto
  moreover from f9 gl' f(1) have "\<forall>i. i \<noteq> lv \<and> i \<noteq> ol \<and> i \<noteq> pool \<longrightarrow> get_lv w' i = get_lv w i" by simp
  moreover from gs' g9 f(4,6) v have
    "get_seg w' seg = Some ((if pn \<noteq> ''cleaner'' then swap_cleaner s else s)\<lparr>pool_lv := None\<rparr>)" by simp
  moreover from gs' g9 f(5,6) have "\<forall>j. j \<noteq> seg \<and> j < length (segs w) \<longrightarrow> get_seg w' j = get_seg w j" by simp
  moreover from gs' f(6) have "get_seg w' (length (segs w)) = None" by simp
  ultimately show ?thesis using f(2,3,8) u(6) c tr by blast
qed

lemma get_fresh [simp]:
  "get_lv w (length (lvs w)) = None" "get_seg w (length (segs w)) = None"
  by (simp_all add: get_lv_def get_seg_def)

lemma insert_layer_ok:
  "insert_layer_for_lv E i st suffix w = (Some l, w') \<Longrightarrow>
     l = length (lvs w) \<and>
     (\<exists>orig. get_lv w i = Some orig
        \<and> get_lv w' = (get_lv w)(i \<mapsto> orig\<lparr>status := status orig OR st,
                                               segments := [length (segs w)]\<rparr>,
                                  length (lvs w) \<mapsto> layer_volume orig suffix (length (segs w)))
        \<and> get_seg w' = (get_seg w)(length (segs w) \<mapsto> layer_segment orig (length (lvs w)))
        \<and> length (lvs w') = Suc (length (lvs w)) \<and> length (segs w') = Suc (length (segs w))
        \<and> trace w' = trace w @ [Call (InsertLayerForLv i st suffix) True])"
  apply (clarsimp simp: insert_layer_for_lv_def insert_layer_effect_def primitive_def Let_def
        layer_volume_def layer_segment_def
        split: option.splits if_splits prod.splits)
  apply (intro conjI ext)
   apply (auto simp: get_lv_def get_seg_def nth_append nth_list_update split: if_splits)
  done

lemma attach_pool_ok:
  "attach_pool_lv E seg pool w = (True, w') \<Longrightarrow>
     \<exists>s p. get_seg w seg = Some s \<and> get_lv w pool = Some p
       \<and> get_lv w' = (get_lv w)(pool \<mapsto> p\<lparr>segs_using_this_lv := seg # segs_using_this_lv p\<rparr>)
       \<and> get_seg w' = (get_seg w)(seg \<mapsto> s\<lparr>pool_lv := Some pool\<rparr>)
       \<and> length (lvs w') = length (lvs w) \<and> length (segs w') = length (segs w)
       \<and> trace w' = trace w @ [Call (AttachPoolLv seg pool) True]"
  by (auto simp: attach_pool_lv_def attach_pool_effect_def primitive_def get_lv_put_lv
        get_seg_put_seg split: option.splits if_splits)

lemma lv_cache_create_success:
  assumes "lv_cache_create E pool origin w = (Return (Some c), w1)"
  shows "c = origin \<and> (\<exists>p orig.
       get_lv w pool = Some p \<and> lv_is_cache_pool E p
     \<and> get_lv w origin = Some orig \<and> \<not> lv_is_cache_type E orig
     \<and> trace w1 = trace w @ [Call (InsertLayerForLv origin (CACHE E) ''_corig'') True,
                               Call (AttachPoolLv (length (segs w)) pool) True]
     \<and> length (lvs w1) = Suc (length (lvs w)) \<and> length (segs w1) = Suc (length (segs w))
     \<and> get_seg w1 = (get_seg w)(length (segs w) \<mapsto>
          (layer_segment orig (length (lvs w)))\<lparr>segtype := Some (Segtype ''cache''),
                                                 pool_lv := Some pool\<rparr>)
     \<and> (pool \<noteq> length (lvs w))
     \<and> get_lv w1 (length (lvs w)) = Some (layer_volume orig ''_corig'' (length (segs w)))
     \<and> (\<exists>c1. get_lv w1 origin = Some c1 \<and> name c1 = name orig \<and> visible c1 = visible orig
            \<and> status c1 = status orig OR CACHE E
            \<and> segments c1 = [length (segs w)] \<and> le_count c1 = le_count orig)
     \<and> (\<exists>p1. get_lv w1 pool = Some p1 \<and> name p1 = name p
            \<and> segs_using_this_lv p1 = length (segs w) # segs_using_this_lv p)
     \<and> (\<forall>i. i \<noteq> origin \<and> i \<noteq> pool \<and> i \<noteq> length (lvs w) \<longrightarrow> get_lv w1 i = get_lv w i))"
  using assms
  apply (simp add: lv_cache_create_def Let_def split: option.splits prod.splits if_splits)
  apply (clarsimp dest!: insert_layer_ok attach_pool_ok
      simp: first_seg_def get_seg_put_seg get_segtype_from_string_def
      split: option.splits list.splits if_splits)
  done

subsection \<open>The result of attach\<close>

lemma word_or_and_absorb: "((a::64 word) OR b) AND b = b"
  by (auto simp: bit_eq_iff bit_simps)

text \<open>
  Claim C5. When attach succeeds, the volume it returns is the origin's own object:
  it keeps the origin's name and carries the CACHE bit; it has a single segment, of
  type "cache", that was not there before; sub-volume 0 of that segment is a new
  volume, hidden, named with the suffix \<open>_corig\<close>, that holds the origin's segments
  and extent count; the segment refers to the pool, it is the only segment of the
  volume that does, and the pool records it as a new user. The two calls of
  attach are the insertion of the layer and the attachment of the pool: attach
  writes, commits, suspends and resumes nothing.
\<close>

theorem attach_result:
  assumes "lv_cache_create E pool origin w = (Return (Some cache_lv), w')"
  shows "\<exists>orig p c seg s hidden_lv hidden p'.
      cache_lv = origin \<and> get_lv w origin = Some orig \<and> get_lv w pool = Some p
    \<and> get_lv w' cache_lv = Some c \<and> name c = name orig
    \<and> status c AND CACHE E = CACHE E \<and> (CACHE E \<noteq> 0 \<longrightarrow> lv_is_cache E c)
    \<and> segments c = [seg] \<and> get_seg w seg = None \<and> get_seg w' seg = Some s
    \<and> segtype s = Some (Segtype ''cache'')
    \<and> seg_lv s 0 = Some hidden_lv \<and> get_lv w hidden_lv = None
    \<and> get_lv w' hidden_lv = Some hidden
    \<and> name hidden = name orig @ ''_corig'' \<and> \<not> visible hidden
    \<and> segments hidden = segments orig \<and> le_count hidden = le_count orig
    \<and> pool_lv s = Some pool
    \<and> [j \<leftarrow> segments c. map_option pool_lv (get_seg w' j) = Some (Some pool)] = [seg]
    \<and> get_lv w' pool = Some p'
    \<and> segs_using_this_lv p' = seg # segs_using_this_lv p
    \<and> trace w' = trace w @ [Call (InsertLayerForLv origin (CACHE E) ''_corig'') True,
                              Call (AttachPoolLv seg pool) True]"
proof -
  from lv_cache_create_success[OF assms] obtain p orig c1 p1 where
    a: "cache_lv = origin" "get_lv w pool = Some p" "get_lv w origin = Some orig"
    and t: "trace w' = trace w @ [Call (InsertLayerForLv origin (CACHE E) ''_corig'') True,
                               Call (AttachPoolLv (length (segs w)) pool) True]"
    and gs: "get_seg w' = (get_seg w)(length (segs w) \<mapsto>
          (layer_segment orig (length (lvs w)))\<lparr>segtype := Some (Segtype ''cache''),
                                                 pool_lv := Some pool\<rparr>)"
    and hv: "get_lv w' (length (lvs w)) = Some (layer_volume orig ''_corig'' (length (segs w)))"
    and c1: "get_lv w' origin = Some c1" "name c1 = name orig"
            "status c1 = status orig OR CACHE E" "segments c1 = [length (segs w)]"
    and p1: "get_lv w' pool = Some p1"
            "segs_using_this_lv p1 = length (segs w) # segs_using_this_lv p"
    by blast
  define seg where "seg = length (segs w)"
  define hidden_lv where "hidden_lv = length (lvs w)"
  define s where "s = (layer_segment orig hidden_lv)\<lparr>segtype := Some (Segtype ''cache''),
                                                      pool_lv := Some pool\<rparr>"
  define hidden where "hidden = layer_volume orig ''_corig'' seg"
  from c1(3) have tag: "status c1 AND CACHE E = CACHE E"
    by (simp add: word_or_and_absorb)
  then have isc: "CACHE E \<noteq> 0 \<longrightarrow> lv_is_cache E c1" by (simp add: lv_is_cache_def)
  have s: "seg_lv s 0 = Some hidden_lv" "segtype s = Some (Segtype ''cache'')"
    "pool_lv s = Some pool"
    by (simp_all add: seg_lv_def layer_segment_def s_def)
  from gs have gs': "get_seg w' seg = Some s" by (simp add: seg_def s_def hidden_lv_def)
  from gs' c1(4) s(3) have once:
    "[j \<leftarrow> segments c1. map_option pool_lv (get_seg w' j) = Some (Some pool)] = [seg]"
    by (simp add: seg_def)
  have h: "name hidden = name orig @ ''_corig''" "\<not> visible hidden"
    "segments hidden = segments orig" "le_count hidden = le_count orig"
    by (simp_all add: layer_volume_def hidden_def)
  have fresh: "get_seg w seg = None" "get_lv w hidden_lv = None"
    by (simp_all add: seg_def hidden_lv_def)
  from hv have hv': "get_lv w' hidden_lv = Some hidden" by (simp add: hidden_def hidden_lv_def seg_def)
  from c1(4) have sc: "segments c1 = [seg]" by (simp add: seg_def)
  from p1(2) have us: "segs_using_this_lv p1 = seg # segs_using_this_lv p" by (simp add: seg_def)
  from t have t': "trace w' = trace w @ [Call (InsertLayerForLv origin (CACHE E) ''_corig'') True,
                              Call (AttachPoolLv seg pool) True]" by (simp add: seg_def)
  from c1(1) a(1) have c1': "get_lv w' cache_lv = Some c1" by simp
  show ?thesis
    using a c1' c1(2) tag isc sc fresh gs' s hv' h once p1(1) us t' by blast
qed

theorem attach_result_witness:
  "lv_cache_create scenario_env 0 1 scenario_world = (Return (Some 1), cached_world) \<and>
   (\<exists>c seg s hidden_lv hidden.
      get_lv cached_world 1 = Some c \<and> name c = ''O'' \<and> segments c = [seg]
    \<and> get_seg cached_world seg = Some s \<and> segtype s = Some (Segtype ''cache'')
    \<and> pool_lv s = Some 0 \<and> seg_lv s 0 = Some hidden_lv
    \<and> get_lv cached_world hidden_lv = Some hidden \<and> name hidden = ''O_corig''
    \<and> \<not> visible hidden \<and> le_count hidden = 10)"
proof -
  from attach_result[OF cached_run] obtain orig c seg s hidden_lv hidden where
    f: "get_lv scenario_world 1 = Some orig" "get_lv cached_world 1 = Some c" "name c = name orig"
       "segments c = [seg]" "get_seg cached_world seg = Some s"
       "segtype s = Some (Segtype ''cache'')" "pool_lv s = Some 0" "seg_lv s 0 = Some hidden_lv"
       "get_lv cached_world hidden_lv = Some hidden" "name hidden = name orig @ ''_corig''"
       "\<not> visible hidden" "le_count hidden = le_count orig"
    by blast
  from f(1) scenario_volumes(2) have "orig = volume_O" by simp
  with f(3,10,12) have "name c = ''O''" "name hidden = ''O_corig''" "le_count hidden = 10"
    by (simp_all add: volume_O_def)
  with f cached_run show ?thesis by blast
qed

subsection \<open>The result of the graph surgery\<close>




subsection \<open>The commit protocol and its failures\<close>

lemma lv_cache_remove_cases [consumes 1, case_names invalid not_cache policy_failed swap_failed
    flush_failed surgery_failed pushed]:
  assumes "lv_cache_remove E lv w = Some (r, w')"
  obtains "get_lv w lv = None" "r = Fault" "w' = w"
  | c where "get_lv w lv = Some c" "\<not> lv_is_cache E c" "r = Return 0" "w' = w"
  | c where "get_lv w lv = Some c" "lv_is_cache E c"
      "lv_cache_policy_info E lv w = (None, w')" "r = Return 0"
  | c pn w1 where "get_lv w lv = Some c" "lv_is_cache E c"
      "lv_cache_policy_info E lv w = (Some pn, w1)" "pn \<noteq> ''cleaner''"
      "swap_in_cleaner E lv (first_seg w lv) w1 = (Some r, w')"
  | c pn w1 w2 where "get_lv w lv = Some c" "lv_is_cache E c"
      "lv_cache_policy_info E lv w = (Some pn, w1)"
      "if pn \<noteq> ''cleaner'' then swap_in_cleaner E lv (first_seg w lv) w1 = (None, w2)
       else w2 = w1"
      "flush_wait E lv w2 = Some (False, w')" "r = Return 0"
  | c pn w1 w2 w3 where "get_lv w lv = Some c" "lv_is_cache E c"
      "lv_cache_policy_info E lv w = (Some pn, w1)"
      "if pn \<noteq> ''cleaner'' then swap_in_cleaner E lv (first_seg w lv) w1 = (None, w2)
       else w2 = w1"
      "flush_wait E lv w2 = Some (True, w3)"
      "unlink_and_promote E lv w3 = (Inl r, w')"
  | c pn w1 w2 w3 w9 po ol where "get_lv w lv = Some c" "lv_is_cache E c"
      "lv_cache_policy_info E lv w = (Some pn, w1)"
      "if pn \<noteq> ''cleaner'' then swap_in_cleaner E lv (first_seg w lv) w1 = (None, w2)
       else w2 = w1"
      "flush_wait E lv w2 = Some (True, w3)"
      "unlink_and_promote E lv w3 = (Inr (po, ol), w9)"
      "commit_and_teardown E lv po ol w9 = (r, w')"
  using assms
  by (simp add: lv_cache_remove_def Let_def split: option.splits prod.splits if_splits sum.splits;
      blast)

lemma is_call_iff: "is_call c e = (\<exists>b. e = Call c b)"
  by (cases e) auto

lemma follows_failed [simp]: "follows E lv (Call c False) e = False"
  by (cases "(E, lv, Call c False, e)" rule: follows.cases) auto

lemma follows_commit:
  "follows E lv e1 (Call VgCommit b) \<Longrightarrow> e1 = Call (SuspendLv lv) True"
  by (cases "(E, lv, e1, Call VgCommit b)" rule: follows.cases) (auto split: if_splits)

lemma follows_suspend:
  "follows E lv e1 (Call (SuspendLv l) b) \<Longrightarrow> e1 = Call VgWrite True \<and> l = lv"
  by (cases "(E, lv, e1, Call (SuspendLv l) b)" rule: follows.cases) (auto split: if_splits)

lemma follows_resume:
  "follows E lv e1 (Call (ResumeLv l) b) \<Longrightarrow>
     (e1 = Call VgCommit True \<and> l = lv) \<or> e1 = Call (ResumeLv lv) True"
  by (cases "(E, lv, e1, Call (ResumeLv l) b)" rule: follows.cases) (auto split: if_splits)

text \<open>What the order of calls says about one run of the four steps.\<close>

lemma write_starts_attempt:
  assumes adj: "\<And>pre e1 e2 post. evs = pre @ e1 # e2 # post \<Longrightarrow> follows E lv e1 e2"
    and final: "\<And>pre e. evs = pre @ [e] \<Longrightarrow> can_end r e"
    and eq: "evs = pre @ Call VgWrite b # post"
  shows "\<exists>es rest. Call VgWrite b # post = es @ rest
           \<and> attempt [VgWrite, SuspendLv lv, VgCommit, ResumeLv lv] es"
proof (cases b)
  case False
  have "post = []"
  proof (cases post)
    case (Cons e2 p2)
    with eq False adj[of pre "Call VgWrite False" e2 p2] show ?thesis by simp
  qed simp
  with False show ?thesis by (intro exI[of _ "[Call VgWrite False]"] exI[of _ "[]"]) simp
next
  case True
  note b = True
  show ?thesis
  proof (cases post)
    case Nil
    with eq b final[of pre "Call VgWrite True"] show ?thesis by simp
  next
    case (Cons e2 p2)
    with eq b adj[of pre "Call VgWrite True" e2 p2] obtain b2 where
      e2: "e2 = Call (SuspendLv lv) b2" by (auto simp: is_call_iff)
    note post = Cons
    show ?thesis
    proof (cases b2)
      case False
      have "p2 = []"
      proof (cases p2)
        case (Cons e3 p3)
        with eq b post e2 False adj[of "pre @ [Call VgWrite True]" "Call (SuspendLv lv) False" e3 p3]
        show ?thesis by simp
      qed simp
      with b post e2 False show ?thesis
        by (intro exI[of _ "[Call VgWrite True, Call (SuspendLv lv) False]"] exI[of _ "[]"]) simp
    next
      case True
      note b2 = True
      show ?thesis
      proof (cases p2)
        case Nil
        with eq b post e2 b2 final[of "pre @ [Call VgWrite True]" "Call (SuspendLv lv) True"]
        show ?thesis by simp
      next
        case (Cons e3 p3)
        with eq b post e2 b2 adj[of "pre @ [Call VgWrite True]" "Call (SuspendLv lv) True" e3 p3]
        obtain b3 where e3: "e3 = Call VgCommit b3" by (auto simp: is_call_iff)
        note p2 = Cons
        show ?thesis
        proof (cases b3)
          case False
          have "p3 = []"
          proof (cases p3)
            case (Cons e4 p4)
            with eq b post e2 b2 p2 e3 False
              adj[of "pre @ [Call VgWrite True, Call (SuspendLv lv) True]" "Call VgCommit False" e4 p4]
            show ?thesis by simp
          qed simp
          with b post e2 b2 p2 e3 False show ?thesis
            by (intro exI[of _ "[Call VgWrite True, Call (SuspendLv lv) True, Call VgCommit False]"]
                  exI[of _ "[]"]) simp
        next
          case True
          note b3 = True
          show ?thesis
          proof (cases p3)
            case Nil
            with eq b post e2 b2 p2 e3 b3
              final[of "pre @ [Call VgWrite True, Call (SuspendLv lv) True]" "Call VgCommit True"]
            show ?thesis by simp
          next
            case (Cons e4 p4)
            with eq b post e2 b2 p2 e3 b3
              adj[of "pre @ [Call VgWrite True, Call (SuspendLv lv) True]" "Call VgCommit True" e4 p4]
            obtain b4 where e4: "e4 = Call (ResumeLv lv) b4" by (auto simp: is_call_iff)
            have "b4 \<Longrightarrow> ?thesis"
              using b post e2 b2 p2 e3 b3 Cons e4
              by (intro exI[of _ "[Call VgWrite True, Call (SuspendLv lv) True, Call VgCommit True,
                    Call (ResumeLv lv) True]"] exI[of _ p4]) simp
            moreover have "p4 = []" if "\<not> b4"
            proof (cases p4)
              case (Cons e5 p5)
              with eq b post e2 b2 p2 e3 b3 \<open>p3 = e4 # p4\<close> e4 that
                adj[of "pre @ [Call VgWrite True, Call (SuspendLv lv) True, Call VgCommit True]"
                  "Call (ResumeLv lv) False" e5 p5]
              show ?thesis by simp
            qed simp
            then have "\<not> b4 \<Longrightarrow> ?thesis"
              using b post e2 b2 p2 e3 b3 Cons e4
              by (intro exI[of _ "[Call VgWrite True, Call (SuspendLv lv) True, Call VgCommit True,
                    Call (ResumeLv lv) False]"] exI[of _ "[]"]) simp
            ultimately show ?thesis by blast
          qed
        qed
      qed
    qed
  qed
qed

lemma nonempty_snoc: "xs \<noteq> [] \<Longrightarrow> \<exists>ys y. xs = ys @ [y]"
  by (cases xs rule: rev_cases) auto

text \<open>
  Claim C2. In every run of detach that returns, each metadata write opens a
  commit cycle whose calls are, in this order and up to the first that fails,
  write, suspend of the top-level volume, commit, resume of the top-level volume.
  A commit comes only directly after a successful write and a successful suspend
  of the top-level volume; the top-level volume is the only one suspended; a
  resume is either the top-level volume's, directly after a successful commit, or
  comes directly after the successful resume of the top-level volume. When detach
  returns 1 the whole sequence of events is the policy query, the policy cycle
  when the policy was not "cleaner", the polls, the graph surgery, the final
  cycle, then the resume of the pool, and the activation, deactivation and removal
  of the hidden origin.
\<close>

theorem commit_protocol_order:
  assumes "lv_cache_remove E cache_lv w = Some (r, w')"
  shows "\<exists>evs. trace w' = trace w @ evs \<and>
     (\<forall>pre b post. evs = pre @ Call VgWrite b # post \<longrightarrow>
        (\<exists>es rest. Call VgWrite b # post = es @ rest
           \<and> attempt [VgWrite, SuspendLv cache_lv, VgCommit, ResumeLv cache_lv] es)) \<and>
     (\<forall>pre b post. evs = pre @ Call VgCommit b # post \<longrightarrow>
        (\<exists>pre'. pre = pre' @ [Call VgWrite True, Call (SuspendLv cache_lv) True])) \<and>
     (\<forall>pre l b post. evs = pre @ Call (SuspendLv l) b # post \<longrightarrow>
        l = cache_lv \<and> (\<exists>pre'. pre = pre' @ [Call VgWrite True])) \<and>
     (\<forall>pre l b post. evs = pre @ Call (ResumeLv l) b # post \<longrightarrow>
        (l = cache_lv \<and> (\<exists>pre'. pre = pre' @ [Call VgCommit True]))
        \<or> (\<exists>pre'. pre = pre' @ [Call (ResumeLv cache_lv) True])) \<and>
     (r = Return 1 \<longrightarrow>
        (\<exists>pn ps seg s pool ol h.
            first_seg w cache_lv = Some seg \<and> get_seg w seg = Some s \<and> pool_lv s = Some pool
          \<and> seg_lv s 0 = Some ol \<and> get_lv w ol = Some h \<and> polling cache_lv True ps
          \<and> evs = success_trace E cache_lv pn ps seg pool ol (le_count h)))"
proof -
  from lv_cache_remove_run[OF assms] obtain evs where
    t: "trace w' = trace w @ evs"
    and adj: "\<And>pre e1 e2 post. evs = pre @ e1 # e2 # post \<Longrightarrow> follows E cache_lv e1 e2"
    and first: "\<And>e post. evs = e # post \<Longrightarrow> is_policy_info cache_lv e"
    and final: "\<And>pre e. evs = pre @ [e] \<Longrightarrow> can_end r e"
    by blast
  have pred: "\<exists>pre' e1. pre = pre' @ [e1] \<and> follows E cache_lv e1 e2"
    if eq: "evs = pre @ e2 # post" and np: "\<not> is_policy_info cache_lv e2" for pre e2 post
  proof (cases pre rule: rev_cases)
    case Nil
    with eq first[of e2 post] np show ?thesis by simp
  next
    case (snoc pre' e1)
    with eq adj[of pre' e1 e2 post] show ?thesis by simp
  qed
  have a: "\<exists>es rest. Call VgWrite b # post = es @ rest
           \<and> attempt [VgWrite, SuspendLv cache_lv, VgCommit, ResumeLv cache_lv] es"
    if "evs = pre @ Call VgWrite b # post" for pre b post
    using adj final that by (rule write_starts_attempt)
  have c: "l = cache_lv \<and> (\<exists>pre'. pre = pre' @ [Call VgWrite True])"
    if eq: "evs = pre @ Call (SuspendLv l) b # post" for pre l b post
    using pred[OF eq] by (auto dest: follows_suspend)
  have b: "\<exists>pre'. pre = pre' @ [Call VgWrite True, Call (SuspendLv cache_lv) True]"
    if eq: "evs = pre @ Call VgCommit b # post" for pre b post
  proof -
    from pred[OF eq] obtain pre1 where p1: "pre = pre1 @ [Call (SuspendLv cache_lv) True]"
      by (auto dest: follows_commit)
    with eq have "evs = pre1 @ Call (SuspendLv cache_lv) True # Call VgCommit b # post" by simp
    from c[OF this] p1 show ?thesis by auto
  qed
  have d: "(l = cache_lv \<and> (\<exists>pre'. pre = pre' @ [Call VgCommit True]))
        \<or> (\<exists>pre'. pre = pre' @ [Call (ResumeLv cache_lv) True])"
    if eq: "evs = pre @ Call (ResumeLv l) b # post" for pre l b post
    using pred[OF eq] by (auto dest: follows_resume)
  have e: "\<exists>pn ps seg s pool ol h.
            first_seg w cache_lv = Some seg \<and> get_seg w seg = Some s \<and> pool_lv s = Some pool
          \<and> seg_lv s 0 = Some ol \<and> get_lv w ol = Some h \<and> polling cache_lv True ps
          \<and> evs = success_trace E cache_lv pn ps seg pool ol (le_count h)"
    if "r = Return 1"
  proof -
    from assms that have "lv_cache_remove E cache_lv w = Some (Return 1, w')" by simp
    from lv_cache_remove_success_state[OF this] obtain seg s pool ol h pn ps where
      f: "first_seg w cache_lv = Some seg" "get_seg w seg = Some s" "pool_lv s = Some pool"
         "seg_lv s 0 = Some ol" "get_lv w ol = Some h" "polling cache_lv True ps"
         "trace w' = trace w @ success_trace E cache_lv pn ps seg pool ol (le_count h)"
      by blast
    from f(7) t have "evs = success_trace E cache_lv pn ps seg pool ol (le_count h)" by simp
    with f show ?thesis by blast
  qed
  show ?thesis
    apply (rule exI[of _ evs])
    apply (intro conjI)
         apply (rule t)
        apply (use a in blast)
       apply (use b in blast)
      apply (use c in blast)
     apply (use d in blast)
    apply (use e in blast)
    done
qed

lemma swap_in_cleaner_attempt:
  assumes "swap_in_cleaner E lv (Some cseg) w = (x, w')" "get_seg w cseg = Some s"
  shows "\<exists>evs. trace w' = trace w @ evs
           \<and> attempt [VgWrite, SuspendLv lv, VgCommit, ResumeLv lv] evs
           \<and> (x = None \<or> x = Some (Return 0) \<and> (\<exists>pre c. evs = pre @ [Call c False]))"
  using assms
  by (simp add: swap_in_cleaner_def Let_def split: option.splits prod.splits if_splits;
      clarsimp dest!: txn_trace)

lemma commit_and_teardown_attempt:
  assumes "commit_and_teardown E lv (Some pool) ol w = (r, w')"
  shows "\<exists>evs. trace w' = trace w @ evs
           \<and> attempt [VgWrite, SuspendLv lv, VgCommit, ResumeLv lv, ResumeLv pool,
                       ActivateLv ol, DeactivateLv ol, LvRemove ol] evs
           \<and> (r = Return 1 \<or> r = Return 0 \<and> (\<exists>pre c. evs = pre @ [Call c False]))"
  using assms
  by (simp add: commit_and_teardown_def Let_def split: option.splits prod.splits if_splits;
      clarsimp dest!: txn_trace graph_trace)

text \<open>
  Claim C7. A failed call is the last event of the run, and the run returns 0: no
  call is made after it, so nothing is resumed, retried or undone. A failed commit
  comes directly after a successful write and a successful suspend, so the
  top-level volume is left suspended. A policy cycle that does not complete
  returns 0 with the volumes as they were and the cache segment carrying the
  "cleaner" policy; a final push that does not complete returns 0 with volumes and
  segments as the graph surgery left them. In both, the calls made are a prefix of
  the cycle that ends with the failed call, which is what tells the failures
  apart: the value returned is 0 for each of them.
\<close>

theorem protocol_failure_returns_at_once:
  "(lv_cache_remove E cache_lv w = Some (r, w') \<longrightarrow>
      (\<exists>evs. trace w' = trace w @ evs \<and>
         (\<forall>pre c post. evs = pre @ Call c False # post \<longrightarrow> post = [] \<and> r = Return 0) \<and>
         (\<forall>pre post. evs = pre @ Call VgCommit False # post \<longrightarrow>
            (\<exists>pre'. pre = pre' @ [Call VgWrite True, Call (SuspendLv cache_lv) True]))))
   \<and>
   (swap_in_cleaner E cache_lv (Some cseg) w1 = (Some r1, w2) \<and> get_seg w1 cseg = Some s \<longrightarrow>
      r1 = Return 0 \<and> lvs w2 = lvs w1 \<and> segs w2 = (segs w1)[cseg := Some (swap_cleaner s)] \<and>
      (\<exists>evs pre c. trace w2 = trace w1 @ evs \<and> evs = pre @ [Call c False]
         \<and> attempt [VgWrite, SuspendLv cache_lv, VgCommit, ResumeLv cache_lv] evs))
   \<and>
   (commit_and_teardown E cache_lv (Some pool) origin_lv w9 = (r9, w10) \<and> r9 \<noteq> Return 1 \<longrightarrow>
      r9 = Return 0 \<and> lvs w10 = lvs w9 \<and> segs w10 = segs w9 \<and>
      (\<exists>evs pre c. trace w10 = trace w9 @ evs \<and> evs = pre @ [Call c False]
         \<and> attempt [VgWrite, SuspendLv cache_lv, VgCommit, ResumeLv cache_lv, ResumeLv pool,
                     ActivateLv origin_lv, DeactivateLv origin_lv, LvRemove origin_lv] evs))"
  (is "(?H1 \<longrightarrow> ?Q1) \<and> (?H2 \<longrightarrow> ?Q2) \<and> (?H3 \<longrightarrow> ?Q3)")
proof -
  have q1: ?Q1 if run: ?H1
  proof -
    from lv_cache_remove_run[OF run] obtain evs where
      t: "trace w' = trace w @ evs"
      and adj: "\<And>pre e1 e2 post. evs = pre @ e1 # e2 # post \<Longrightarrow> follows E cache_lv e1 e2"
      and first: "\<And>e post. evs = e # post \<Longrightarrow> is_policy_info cache_lv e"
      and final: "\<And>pre e. evs = pre @ [e] \<Longrightarrow> can_end r e"
      by blast
    have a: "post = [] \<and> r = Return 0" if eq: "evs = pre @ Call c False # post" for pre c post
    proof (cases post)
      case Nil
      with eq final[of pre "Call c False"] show ?thesis by simp
    next
      case (Cons e2 p2)
      with eq adj[of pre "Call c False" e2 p2] show ?thesis by simp
    qed
    have b: "\<exists>pre'. pre = pre' @ [Call VgWrite True, Call (SuspendLv cache_lv) True]"
      if eq: "evs = pre @ Call VgCommit False # post" for pre post
    proof -
      have "\<exists>pre1. pre = pre1 @ [Call (SuspendLv cache_lv) True]"
      proof (cases pre rule: rev_cases)
        case Nil
        with eq first[of "Call VgCommit False" post] show ?thesis by simp
      next
        case (snoc pre1 e1)
        with eq adj[of pre1 e1 "Call VgCommit False" post] show ?thesis
          by (auto dest: follows_commit)
      qed
      then obtain pre1 where p1: "pre = pre1 @ [Call (SuspendLv cache_lv) True]" by blast
      show ?thesis
      proof (cases pre1 rule: rev_cases)
        case Nil
        with eq p1 first[of "Call (SuspendLv cache_lv) True" "Call VgCommit False # post"]
        show ?thesis by simp
      next
        case (snoc pre0 e0)
        with eq p1 adj[of pre0 e0 "Call (SuspendLv cache_lv) True" "Call VgCommit False # post"]
        show ?thesis by (auto dest: follows_suspend)
      qed
    qed
    show ?thesis
      apply (rule exI[of _ evs])
      apply (intro conjI)
        apply (rule t)
       apply (use a in blast)
      apply (use b in blast)
      done
  qed
  have q2: ?Q2 if h: ?H2
  proof -
    from h have sw: "swap_in_cleaner E cache_lv (Some cseg) w1 = (Some r1, w2)"
      and s: "get_seg w1 cseg = Some s" by simp_all
    from swap_in_cleaner_attempt[OF sw s] swap_in_cleaner_result(1,2)[OF sw] s
    show ?thesis by auto
  qed
  have q3: ?Q3 if h: ?H3
  proof -
    from h have ct: "commit_and_teardown E cache_lv (Some pool) origin_lv w9 = (r9, w10)"
      and r9: "r9 \<noteq> Return 1" by simp_all
    from commit_and_teardown_attempt[OF ct] commit_and_teardown_result[OF ct] r9
    show ?thesis by auto
  qed
  from q1 q2 q3 show ?thesis by blast
qed

theorem commit_protocol_order_witness:
  "lv_cache_remove draining_env 1 cached_world = Some (Return 1, drained_world) \<and>
   (\<exists>evs. trace drained_world = trace cached_world @ evs \<and>
     (\<forall>pre b post. evs = pre @ Call VgWrite b # post \<longrightarrow>
        (\<exists>es rest. Call VgWrite b # post = es @ rest
           \<and> attempt [VgWrite, SuspendLv 1, VgCommit, ResumeLv 1] es)) \<and>
     (\<forall>pre b post. evs = pre @ Call VgCommit b # post \<longrightarrow>
        (\<exists>pre'. pre = pre' @ [Call VgWrite True, Call (SuspendLv 1) True])) \<and>
     (\<forall>pre l b post. evs = pre @ Call (SuspendLv l) b # post \<longrightarrow>
        l = 1 \<and> (\<exists>pre'. pre = pre' @ [Call VgWrite True])) \<and>
     (\<forall>pre l b post. evs = pre @ Call (ResumeLv l) b # post \<longrightarrow>
        (l = 1 \<and> (\<exists>pre'. pre = pre' @ [Call VgCommit True]))
        \<or> (\<exists>pre'. pre = pre' @ [Call (ResumeLv 1) True])) \<and>
     (\<exists>pn ps seg s pool ol h.
            first_seg cached_world 1 = Some seg \<and> get_seg cached_world seg = Some s
          \<and> pool_lv s = Some pool
          \<and> seg_lv s 0 = Some ol \<and> get_lv cached_world ol = Some h \<and> polling 1 True ps
          \<and> evs = success_trace draining_env 1 pn ps seg pool ol (le_count h)))"
  using drained_run commit_protocol_order[OF drained_run] by simp

lemma stuck_run:
  "lv_cache_remove commit_fails_env 1 cached_world
     = Some (Return 0, snd (the (lv_cache_remove commit_fails_env 1 cached_world)))"
proof -
  have "(case lv_cache_remove commit_fails_env 1 cached_world of
           Some (Return n, _) \<Rightarrow> n = 0 | _ \<Rightarrow> False)"
    by code_simp
  then show ?thesis
    by (auto split: option.splits result.splits)
qed

lemma stuck_swap:
  "swap_in_cleaner commit_fails_env 1 (Some 2) cached_world
     = (Some (Return 0), snd (swap_in_cleaner commit_fails_env 1 (Some 2) cached_world))"
proof -
  have "fst (swap_in_cleaner commit_fails_env 1 (Some 2) cached_world) = Some (Return 0)"
    by code_simp
  then show ?thesis by (simp add: prod_eq_iff)
qed

lemma stuck_push:
  "commit_and_teardown commit_fails_env 1 (Some 0) 2 promoted_world
     = (Return 0, snd (commit_and_teardown commit_fails_env 1 (Some 0) 2 promoted_world))"
proof -
  have "fst (commit_and_teardown commit_fails_env 1 (Some 0) 2 promoted_world) = Return 0"
    by code_simp
  then show ?thesis by (simp add: prod_eq_iff)
qed

lemma cached_segment: "get_seg cached_world 2 = Some (the (get_seg cached_world 2))"
proof -
  have "get_seg cached_world 2 \<noteq> None" by code_simp
  then show ?thesis by simp
qed

theorem protocol_failure_returns_at_once_witness:
  "lv_cache_remove commit_fails_env 1 cached_world
     = Some (Return 0, snd (the (lv_cache_remove commit_fails_env 1 cached_world))) \<and>
   (\<exists>evs. trace (snd (the (lv_cache_remove commit_fails_env 1 cached_world)))
            = trace cached_world @ evs \<and>
      (\<forall>pre c post. evs = pre @ Call c False # post
         \<longrightarrow> post = [] \<and> Return 0 = (Return 0 :: int result)) \<and>
      (\<forall>pre post. evs = pre @ Call VgCommit False # post \<longrightarrow>
         (\<exists>pre'. pre = pre' @ [Call VgWrite True, Call (SuspendLv 1) True]))) \<and>
   swap_in_cleaner commit_fails_env 1 (Some 2) cached_world
     = (Some (Return 0), snd (swap_in_cleaner commit_fails_env 1 (Some 2) cached_world)) \<and>
   get_seg cached_world 2 = Some (the (get_seg cached_world 2)) \<and>
   lvs (snd (swap_in_cleaner commit_fails_env 1 (Some 2) cached_world)) = lvs cached_world \<and>
   segs (snd (swap_in_cleaner commit_fails_env 1 (Some 2) cached_world))
     = (segs cached_world)[2 := Some (swap_cleaner (the (get_seg cached_world 2)))] \<and>
   commit_and_teardown commit_fails_env 1 (Some 0) 2 promoted_world
     = (Return 0, snd (commit_and_teardown commit_fails_env 1 (Some 0) 2 promoted_world)) \<and>
   lvs (snd (commit_and_teardown commit_fails_env 1 (Some 0) 2 promoted_world)) = lvs promoted_world \<and>
   segs (snd (commit_and_teardown commit_fails_env 1 (Some 0) 2 promoted_world)) = segs promoted_world"
proof -
  note th = protocol_failure_returns_at_once[of commit_fails_env 1 cached_world "Return 0"
      "snd (the (lv_cache_remove commit_fails_env 1 cached_world))"
      2 cached_world "Return 0" "snd (swap_in_cleaner commit_fails_env 1 (Some 2) cached_world)"
      "the (get_seg cached_world 2)" 0 2 promoted_world "Return 0"
      "snd (commit_and_teardown commit_fails_env 1 (Some 0) 2 promoted_world)"]
  have ne: "(Return 0 :: int result) \<noteq> Return 1" by simp
  from th stuck_run stuck_swap cached_segment stuck_push ne show ?thesis by blast
qed

lemma no_error_run:
  "lv_cache_remove no_error_env 1 cached_world
     = Some (Return 1, snd (the (lv_cache_remove no_error_env 1 cached_world)))"
proof -
  have "(case lv_cache_remove no_error_env 1 cached_world of
           Some (Return n, _) \<Rightarrow> n = 1 | _ \<Rightarrow> False)"
    by code_simp
  then show ?thesis
    by (auto split: option.splits result.splits)
qed

subsection \<open>A failure before the graph surgery\<close>

lemma swap_in_cleaner_frame:
  assumes "swap_in_cleaner E lv cs w = (x, w')"
  shows "lvs w' = lvs w \<and> (segs w' = segs w
           \<or> (\<exists>c s. cs = Some c \<and> get_seg w c = Some s
                 \<and> segs w' = (segs w)[c := Some (swap_cleaner s)]))"
proof (cases "\<exists>c s. cs = Some c \<and> get_seg w c = Some s")
  case True
  with swap_in_cleaner_result(1,2)[OF assms] show ?thesis by blast
next
  case False
  with assms have "w' = w"
    by (auto simp: swap_in_cleaner_def split: option.splits)
  then show ?thesis by simp
qed

lemma unlink_and_promote_before_detach:
  assumes "unlink_and_promote E lv w = (x, w')" "trace w' = trace w @ evs"
    "\<forall>e\<in>set evs. \<not> is_detach_pool e"
  shows "w' = w \<and> x = Inl Fault"
  using assms
  apply (simp add: unlink_and_promote_def Let_def split: option.splits prod.splits if_splits)
  apply (clarsimp dest!: move_trace graph_trace)+
  done

text \<open>
  Claim C9. The flush-and-wait phase is the part of a run before the first call
  that unlinks the pool. A run of detach that returns without reaching that call
  does not return 1: it returns 0 or dereferences a null pointer. It leaves every
  volume as it was, and every segment as it was but for the cache segment, which
  carries the "cleaner" policy with no argument when the run got as far as
  swapping the policy in. No volume is renamed, shown, emptied or removed, and no
  segment is moved, added or unlinked from the pool.
\<close>

theorem flush_phase_failure_leaves_graph:
  assumes run: "lv_cache_remove E cache_lv w = Some (r, w')"
    and t: "trace w' = trace w @ evs"
    and nodetach: "\<forall>e\<in>set evs. \<not> is_detach_pool e"
  shows "(r = Return 0 \<or> r = Fault) \<and> lvs w' = lvs w
       \<and> (segs w' = segs w
            \<or> (\<exists>cseg s. first_seg w cache_lv = Some cseg \<and> get_seg w cseg = Some s
                  \<and> segs w' = (segs w)[cseg := Some (swap_cleaner s)]))"
  using run
proof (cases rule: lv_cache_remove_cases)
  case invalid
  then show ?thesis by simp
next
  case (not_cache c)
  then show ?thesis by simp
next
  case (policy_failed c)
  from policy_effect[OF policy_failed(3)] policy_failed(4) show ?thesis by simp
next
  case (swap_failed c pn w1)
  from policy_effect[OF swap_failed(3)] have w1: "lvs w1 = lvs w" "segs w1 = segs w"
    "get_seg w1 = get_seg w"
    by (simp_all add: get_seg_def fun_eq_iff)
  from swap_in_cleaner_order[OF swap_failed(5)] have "r = Fault \<or> r = Return 0"
    by (cases "trace w' = trace w1") auto
  with swap_in_cleaner_frame[OF swap_failed(5)] w1 show ?thesis by auto
next
  case (flush_failed c pn w1 w2)
  from policy_effect[OF flush_failed(3)] have w1: "lvs w1 = lvs w" "segs w1 = segs w"
    "get_seg w1 = get_seg w"
    by (simp_all add: get_seg_def fun_eq_iff)
  from flush_wait_run[OF flush_failed(5)] have w': "lvs w' = lvs w2" "segs w' = segs w2" by auto
  show ?thesis
  proof (cases "pn = ''cleaner''")
    case True
    with flush_failed(4) w1 w' flush_failed(6) show ?thesis by simp
  next
    case False
    with flush_failed(4) have "swap_in_cleaner E cache_lv (first_seg w cache_lv) w1 = (None, w2)"
      by simp
    from swap_in_cleaner_frame[OF this] w1 w' flush_failed(6) show ?thesis by auto
  qed
next
  case (surgery_failed c pn w1 w2 w3)
  from policy_effect[OF surgery_failed(3)] have w1: "lvs w1 = lvs w" "segs w1 = segs w"
    "get_seg w1 = get_seg w" "trace w1 = trace w @ [PolicyInfo cache_lv (Some pn)]"
    by (simp_all add: get_seg_def fun_eq_iff)
  from flush_wait_run[OF surgery_failed(5)] obtain ps where
    w3: "lvs w3 = lvs w2" "segs w3 = segs w2" "trace w3 = trace w2 @ ps" by auto
  from unlink_and_promote_order[OF surgery_failed(6)] obtain es where
    es: "trace w' = trace w3 @ es" by blast
  have "\<exists>mid. trace w2 = trace w1 @ mid \<and> lvs w2 = lvs w1
          \<and> (segs w2 = segs w1 \<or> (\<exists>cseg s. first_seg w cache_lv = Some cseg \<and> get_seg w1 cseg = Some s
                  \<and> segs w2 = (segs w1)[cseg := Some (swap_cleaner s)]))"
  proof (cases "pn = ''cleaner''")
    case True
    with surgery_failed(4) show ?thesis by simp
  next
    case False
    with surgery_failed(4) have sw: "swap_in_cleaner E cache_lv (first_seg w cache_lv) w1 = (None, w2)"
      by simp
    from swap_in_cleaner_frame[OF sw] swap_in_cleaner_order[OF sw] show ?thesis by blast
  qed
  then obtain mid where mid: "trace w2 = trace w1 @ mid" "lvs w2 = lvs w1"
    "segs w2 = segs w1 \<or> (\<exists>cseg s. first_seg w cache_lv = Some cseg \<and> get_seg w1 cseg = Some s
                  \<and> segs w2 = (segs w1)[cseg := Some (swap_cleaner s)])" by blast
  from t es w3 mid w1 have "evs = PolicyInfo cache_lv (Some pn) # mid @ ps @ es" by simp
  with nodetach have "\<forall>e\<in>set es. \<not> is_detach_pool e" by simp
  from unlink_and_promote_before_detach[OF surgery_failed(6) es this]
  have "w' = w3" "r = Fault" by simp_all
  with w3 mid w1 show ?thesis by auto
next
  case (pushed c pn w1 w2 w3 w9 po ol)
  from policy_effect[OF pushed(3)] have w1: "trace w1 = trace w @ [PolicyInfo cache_lv (Some pn)]"
    by simp
  from flush_wait_run[OF pushed(5)] obtain ps where
    w3: "trace w3 = trace w2 @ ps" by auto
  have "\<exists>mid. trace w2 = trace w1 @ mid"
  proof (cases "pn = ''cleaner''")
    case True
    with pushed(4) show ?thesis by simp
  next
    case False
    with pushed(4) have sw: "swap_in_cleaner E cache_lv (first_seg w cache_lv) w1 = (None, w2)"
      by simp
    from swap_in_cleaner_order[OF sw] show ?thesis by blast
  qed
  then obtain mid where mid: "trace w2 = trace w1 @ mid" by blast
  from unlink_and_promote_result[OF pushed(6)] obtain seg es9 where
    w9: "trace w9 = trace w3 @ Call (DetachPoolLv seg) True # es9" by blast
  from commit_and_teardown_order[OF pushed(7)] obtain es where
    es: "trace w' = trace w9 @ es" by blast
  from t es w9 w3 mid w1
  have "evs = PolicyInfo cache_lv (Some pn) # mid @ ps @ Call (DetachPoolLv seg) True # es9 @ es"
    by simp
  with nodetach show ?thesis by simp
qed


theorem flush_phase_failure_leaves_graph_witness:
  "lv_cache_remove commit_fails_env 1 cached_world
     = Some (Return 0, snd (the (lv_cache_remove commit_fails_env 1 cached_world))) \<and>
   trace (snd (the (lv_cache_remove commit_fails_env 1 cached_world)))
     = trace cached_world @ [PolicyInfo 1 (Some ''mq''), Call VgWrite True,
                              Call (SuspendLv 1) True, Call VgCommit False] \<and>
   lvs (snd (the (lv_cache_remove commit_fails_env 1 cached_world))) = lvs cached_world \<and>
   (segs (snd (the (lv_cache_remove commit_fails_env 1 cached_world))) = segs cached_world
     \<or> (\<exists>cseg s. first_seg cached_world 1 = Some cseg \<and> get_seg cached_world cseg = Some s
           \<and> segs (snd (the (lv_cache_remove commit_fails_env 1 cached_world)))
               = (segs cached_world)[cseg := Some (swap_cleaner s)]))"
proof -
  have t: "trace (snd (the (lv_cache_remove commit_fails_env 1 cached_world)))
     = trace cached_world @ [PolicyInfo 1 (Some ''mq''), Call VgWrite True,
                              Call (SuspendLv 1) True, Call VgCommit False]"
    by code_simp
  have n: "\<forall>e\<in>set [PolicyInfo 1 (Some ''mq''), Call VgWrite True,
                      Call (SuspendLv 1) True, Call VgCommit False]. \<not> is_detach_pool e"
    by simp
  from flush_phase_failure_leaves_graph[OF stuck_run t n] stuck_run t show ?thesis by blast
qed

subsection \<open>The segment type of the placeholder\<close>

lemma primitive_run:
  "eff w = Some v \<Longrightarrow>
     primitive E c eff w
       = (succeeds E (trace w) c,
          record_event (Call c (succeeds E (trace w) c)) (if succeeds E (trace w) c then v else w))"
  by (simp add: primitive_def)

lemma first_seg_segments:
  "first_seg w i = Some seg \<Longrightarrow> \<exists>l rest. get_lv w i = Some l \<and> segments l = seg # rest"
  by (auto simp: first_seg_def split: option.splits list.splits)

lemma first_seg_eq:
  "get_lv w i = Some l \<Longrightarrow> segments l = seg # rest \<Longrightarrow> first_seg w i = Some seg"
  by (simp add: first_seg_def)

lemma unlink_and_promote_progress:
  assumes seg: "first_seg w lv = Some seg" "get_seg w seg = Some s"
    and pool: "pool_lv s = Some pool" "get_lv w pool = Some p"
    and orig: "seg_lv s 0 = Some ol" "get_lv w ol = Some h" "ol \<noteq> lv"
    and g: "\<And>hist. succeeds E hist (DetachPoolLv seg)"
      "\<And>hist. succeeds E hist (RemoveSegFromSegsUsingThisLv ol seg)"
      "\<And>hist. succeeds E hist (MoveLvSegments lv ol)"
  shows "\<exists>x w' b. unlink_and_promote E lv w = (x, w')
      \<and> trace w' = trace w @ [Call (DetachPoolLv seg) True, SetVisible ol,
               Call (RemoveSegFromSegsUsingThisLv ol seg) True,
               Call (MoveLvSegments lv ol) True,
               Call (LvAddVirtualSegment ol 0 (le_count h) (get_segtype_from_string E ''error'')) b]
      \<and> b = succeeds E (trace w @ [Call (DetachPoolLv seg) True, SetVisible ol,
               Call (RemoveSegFromSegsUsingThisLv ol seg) True,
               Call (MoveLvSegments lv ol) True])
            (LvAddVirtualSegment ol 0 (le_count h) (get_segtype_from_string E ''error''))
      \<and> x = (if b then Inr (Some pool, ol) else Inl (Return 0))"
proof -
  from first_seg_segments[OF seg(1)] obtain c rest where
    c: "get_lv w lv = Some c" "segments c = seg # rest" by blast
  define w4 where "w4 = snd (detach_pool_lv E seg w)"
  have d: "detach_pool_lv E seg w = (True, w4)"
    unfolding w4_def
    by (simp add: detach_pool_lv_def detach_pool_effect_def seg pool g primitive_def)
  from detach_pool_ok[OF d] seg(2) pool have
    l4: "get_lv w4 = (get_lv w)(pool \<mapsto> p\<lparr>segs_using_this_lv := remove1 seg (segs_using_this_lv p)\<rparr>)"
    and s4: "get_seg w4 = (get_seg w)(seg \<mapsto> s\<lparr>pool_lv := None\<rparr>)"
    and t4: "trace w4 = trace w @ [Call (DetachPoolLv seg) True]"
    by auto
  from l4 c pool(2) obtain c4 where c4: "get_lv w4 lv = Some c4" "segments c4 = seg # rest"
    by (cases "pool = lv") auto
  from l4 orig(2) pool(2) obtain h4 where h4: "get_lv w4 ol = Some h4" "le_count h4 = le_count h"
    by (cases "pool = ol") auto
  have f4: "first_seg w4 lv = Some seg" using c4 by (rule first_seg_eq)
  have g4: "get_seg w4 seg = Some (s\<lparr>pool_lv := None\<rparr>)" using s4 by simp
  define w5 where "w5 = lv_set_visible ol w4"
  from set_visible_effect[OF h4(1)] have
    l5: "get_lv w5 = (get_lv w4)(ol \<mapsto> h4\<lparr>visible := True\<rparr>)"
    and t5: "trace w5 = trace w4 @ [SetVisible ol]"
    by (simp_all add: w5_def)
  from l5 c4 orig(3) have c5: "get_lv w5 lv = Some c4" by simp
  have f5: "first_seg w5 lv = Some seg" using c5 c4(2) by (rule first_seg_eq)
  have h5: "get_lv w5 ol = Some (h4\<lparr>visible := True\<rparr>)" using l5 by simp
  define w6 where "w6 = snd (remove_seg_from_segs_using_this_lv E ol seg w5)"
  have r: "remove_seg_from_segs_using_this_lv E ol seg w5 = (True, w6)"
    unfolding w6_def
    by (simp add: remove_seg_from_segs_using_this_lv_def remove_seg_effect_def h5 g primitive_def)
  from remove_seg_ok[OF r] h5 have
    l6: "get_lv w6 = (get_lv w5)(ol \<mapsto> h4\<lparr>visible := True,
            segs_using_this_lv := remove1 seg (segs_using_this_lv h4)\<rparr>)"
    and t6: "trace w6 = trace w5 @ [Call (RemoveSegFromSegsUsingThisLv ol seg) True]"
    by auto
  from l6 c5 orig(3) have c6: "get_lv w6 lv = Some c4" by simp
  from l6 obtain h6 where h6: "get_lv w6 ol = Some h6" "le_count h6 = le_count h4" by simp
  define w7 where "w7 = snd (move_lv_segments E lv ol w6)"
  have m: "move_lv_segments E lv ol w6 = (True, w7)"
    unfolding w7_def using orig(3)
    by (simp add: move_lv_segments_def move_segments_effect_def c6 h6 g primitive_def)
  from move_ok[OF m] c6 h6 have
    l7: "get_lv w7 = (get_lv w6)(lv \<mapsto> c4\<lparr>segments := segments h6, le_count := le_count h6\<rparr>,
                                  ol \<mapsto> h6\<lparr>segments := [], le_count := 0\<rparr>)"
    and t7: "trace w7 = trace w6 @ [Call (MoveLvSegments lv ol) True]"
    by auto
  from l7 orig(3) obtain c7 where c7: "get_lv w7 lv = Some c7" "le_count c7 = le_count h6"
    by simp
  from l7 have h7: "get_lv w7 ol \<noteq> None" by simp
  define w8 where "w8 = put_lv lv (c7\<lparr>status := status c7 AND NOT (CACHE E)\<rparr>) w7"
  from c7(1) have "get_lv w8 = (get_lv w7)(lv \<mapsto> c7\<lparr>status := status c7 AND NOT (CACHE E)\<rparr>)"
    unfolding w8_def by (intro get_lv_put_lv) simp
  with h7 orig(3) obtain h8 where h8: "get_lv w8 ol = Some h8" by auto
  have t8: "trace w8 = trace w7" by (simp add: w8_def)
  define st where "st = get_segtype_from_string E ''error''"
  define b where "b = succeeds E (trace w8) (LvAddVirtualSegment ol 0 (le_count c7) st)"
  define w9 where "w9 = snd (lv_add_virtual_segment E ol 0 (le_count c7) st w8)"
  have a: "lv_add_virtual_segment E ol 0 (le_count c7) st w8 = (b, w9)"
    unfolding w9_def b_def
    by (simp add: lv_add_virtual_segment_def add_virtual_effect_def h8 primitive_def)
  from graph_trace(3)[OF a] have t9: "trace w9 = trace w8
      @ [Call (LvAddVirtualSegment ol 0 (le_count c7) st) b]" .
  have n: "le_count c7 = le_count h" using c7(2) h6(2) h4(2) by simp
  have run: "unlink_and_promote E lv w = (if b then Inr (Some pool, ol) else Inl (Return 0), w9)"
    using d f4 g4 orig(1) f5 r m c7(1) a
    by (simp add: unlink_and_promote_def Let_def seg pool w5_def[symmetric] w8_def[symmetric]
        st_def[symmetric])
  have tr: "trace w9 = trace w @ [Call (DetachPoolLv seg) True, SetVisible ol,
               Call (RemoveSegFromSegsUsingThisLv ol seg) True,
               Call (MoveLvSegments lv ol) True,
               Call (LvAddVirtualSegment ol 0 (le_count h) st) b]"
    using t9 t8 t7 t6 t5 t4 n by simp
  have bb: "b = succeeds E (trace w @ [Call (DetachPoolLv seg) True, SetVisible ol,
               Call (RemoveSegFromSegsUsingThisLv ol seg) True,
               Call (MoveLvSegments lv ol) True])
            (LvAddVirtualSegment ol 0 (le_count h) st)"
    unfolding b_def using t8 t7 t6 t5 t4 n by simp
  from run tr bb show ?thesis unfolding st_def by blast
qed

text \<open>
  Claim C10. Lines 161 to 185 of detach on a cache volume whose cache segment
  refers to a pool and maps onto an origin, when the unlinking, the removal of the
  back reference and the move succeed and the segment type "error" cannot be
  resolved: the call that installs the placeholder segment is made, right after
  the move, with no segment type and the extent count of the origin, and the lines
  complete when that call succeeds and return 0 when it fails; nothing fails at
  the resolution. In every run of detach with "error" unresolved, each successful
  move is followed at once by that call with no segment type, and a run that
  returns 1 contains the move followed by the successful call with no segment
  type. When the segment type "cache" cannot be resolved, attach on a valid pair
  returns no volume and changes nothing.
\<close>

theorem error_segtype_not_checked:
  "(first_seg w cache_lv = Some seg \<and> get_seg w seg = Some s
      \<and> pool_lv s = Some pool \<and> get_lv w pool = Some p
      \<and> seg_lv s 0 = Some ol \<and> get_lv w ol = Some h \<and> ol \<noteq> cache_lv
      \<and> (\<forall>hist. succeeds E hist (DetachPoolLv seg)
                \<and> succeeds E hist (RemoveSegFromSegsUsingThisLv ol seg)
                \<and> succeeds E hist (MoveLvSegments cache_lv ol))
      \<and> get_segtype_from_string E ''error'' = None \<longrightarrow>
      (\<exists>b. trace (snd (unlink_and_promote E cache_lv w))
              = trace w @ [Call (DetachPoolLv seg) True, SetVisible ol,
                           Call (RemoveSegFromSegsUsingThisLv ol seg) True,
                           Call (MoveLvSegments cache_lv ol) True,
                           Call (LvAddVirtualSegment ol 0 (le_count h) None) b]
         \<and> b = succeeds E (trace w @ [Call (DetachPoolLv seg) True, SetVisible ol,
                           Call (RemoveSegFromSegsUsingThisLv ol seg) True,
                           Call (MoveLvSegments cache_lv ol) True])
                  (LvAddVirtualSegment ol 0 (le_count h) None)
         \<and> fst (unlink_and_promote E cache_lv w)
              = (if b then Inr (Some pool, ol) else Inl (Return 0))))
   \<and>
   (lv_cache_remove E cache_lv w = Some (r, w') \<and> get_segtype_from_string E ''error'' = None \<longrightarrow>
      (\<exists>evs. trace w' = trace w @ evs \<and>
         (\<forall>pre l ol post. evs = pre @ Call (MoveLvSegments l ol) True # post \<longrightarrow>
            (\<exists>n b post'. post = Call (LvAddVirtualSegment ol 0 n None) b # post')) \<and>
         (r = Return 1 \<longrightarrow>
            (\<exists>pre ol n post. evs = pre @ Call (MoveLvSegments cache_lv ol) True
                                  # Call (LvAddVirtualSegment ol 0 n None) True # post))))
   \<and>
   (get_lv w0 pool0 = Some p0 \<and> lv_is_cache_pool E p0 \<and> get_lv w0 origin = Some orig
      \<and> \<not> lv_is_cache_type E orig \<and> get_segtype_from_string E ''cache'' = None \<longrightarrow>
      lv_cache_create E pool0 origin w0 = (Return None, w0))"
  (is "(?H0 \<longrightarrow> ?Q0) \<and> (?H1 \<longrightarrow> ?Q1) \<and> (?H2 \<longrightarrow> ?Q2)")
proof -
  have q0: ?Q0 if h: ?H0
  proof -
    from h have none: "get_segtype_from_string E ''error'' = None" by simp
    from h have f: "first_seg w cache_lv = Some seg" "get_seg w seg = Some s"
      "pool_lv s = Some pool" "get_lv w pool = Some p"
      "seg_lv s 0 = Some ol" "get_lv w ol = Some h" "ol \<noteq> cache_lv"
      and g: "\<And>hist. succeeds E hist (DetachPoolLv seg)"
        "\<And>hist. succeeds E hist (RemoveSegFromSegsUsingThisLv ol seg)"
        "\<And>hist. succeeds E hist (MoveLvSegments cache_lv ol)"
      by simp_all
    from unlink_and_promote_progress[OF f g]
    have "\<exists>x w9 b. unlink_and_promote E cache_lv w = (x, w9)
      \<and> trace w9 = trace w @ [Call (DetachPoolLv seg) True, SetVisible ol,
               Call (RemoveSegFromSegsUsingThisLv ol seg) True,
               Call (MoveLvSegments cache_lv ol) True,
               Call (LvAddVirtualSegment ol 0 (le_count h) (get_segtype_from_string E ''error'')) b]
      \<and> b = succeeds E (trace w @ [Call (DetachPoolLv seg) True, SetVisible ol,
               Call (RemoveSegFromSegsUsingThisLv ol seg) True,
               Call (MoveLvSegments cache_lv ol) True])
            (LvAddVirtualSegment ol 0 (le_count h) (get_segtype_from_string E ''error''))
      \<and> x = (if b then Inr (Some pool, ol) else Inl (Return 0))" .
    then obtain x w9 b where
      a: "unlink_and_promote E cache_lv w = (x, w9)"
      "trace w9 = trace w @ [Call (DetachPoolLv seg) True, SetVisible ol,
               Call (RemoveSegFromSegsUsingThisLv ol seg) True,
               Call (MoveLvSegments cache_lv ol) True,
               Call (LvAddVirtualSegment ol 0 (le_count h) (get_segtype_from_string E ''error'')) b]"
      "b = succeeds E (trace w @ [Call (DetachPoolLv seg) True, SetVisible ol,
               Call (RemoveSegFromSegsUsingThisLv ol seg) True,
               Call (MoveLvSegments cache_lv ol) True])
            (LvAddVirtualSegment ol 0 (le_count h) (get_segtype_from_string E ''error''))"
      "x = (if b then Inr (Some pool, ol) else Inl (Return 0))"
      by blast
    show ?thesis
      apply (rule exI[of _ b])
      using a none apply simp
      done
  qed
  have q1: ?Q1 if h: ?H1
  proof -
    from h have run: "lv_cache_remove E cache_lv w = Some (r, w')"
      and none: "get_segtype_from_string E ''error'' = None" by simp_all
    from lv_cache_remove_run[OF run] obtain evs where
      t: "trace w' = trace w @ evs"
      and adj: "\<And>pre e1 e2 post. evs = pre @ e1 # e2 # post \<Longrightarrow> follows E cache_lv e1 e2"
      and final: "\<And>pre e. evs = pre @ [e] \<Longrightarrow> can_end r e"
      by blast
    have a: "\<exists>n b post'. post = Call (LvAddVirtualSegment ol 0 n None) b # post'"
      if eq: "evs = pre @ Call (MoveLvSegments l ol) True # post" for pre l ol post
    proof (cases post)
      case Nil
      with eq final[of pre "Call (MoveLvSegments l ol) True"] show ?thesis by simp
    next
      case (Cons e2 p2)
      with eq adj[of pre "Call (MoveLvSegments l ol) True" e2 p2] none
      have "is_add_virtual ol None e2" by simp
      then obtain n b where "e2 = Call (LvAddVirtualSegment ol 0 n None) b"
        by (cases "(ol, None :: segment_type option, e2)" rule: is_add_virtual.cases) auto
      with Cons show ?thesis by simp
    qed
    have b: "\<exists>pre ol n post. evs = pre @ Call (MoveLvSegments cache_lv ol) True
                                  # Call (LvAddVirtualSegment ol 0 n None) True # post"
      if one: "r = Return 1"
    proof -
      from run one have "lv_cache_remove E cache_lv w = Some (Return 1, w')" by simp
      from lv_cache_remove_success_state[OF this] obtain pn ps sg pl ol1 n1 where
        "trace w' = trace w @ success_trace E cache_lv pn ps sg pl ol1 n1"
        by (elim exE conjE) (rule that)
      with t have e: "evs = success_trace E cache_lv pn ps sg pl ol1 n1" by simp
      define pre where "pre = PolicyInfo cache_lv (Some pn)
         # (if pn \<noteq> ''cleaner''
            then [Call VgWrite True, Call (SuspendLv cache_lv) True, Call VgCommit True,
                  Call (ResumeLv cache_lv) True]
            else [])
         @ ps
         @ [Call (DetachPoolLv sg) True, SetVisible ol1,
            Call (RemoveSegFromSegsUsingThisLv ol1 sg) True]"
      define post where "post = [Call VgWrite True, Call (SuspendLv cache_lv) True,
            Call VgCommit True, Call (ResumeLv cache_lv) True, Call (ResumeLv pl) True,
            Call (ActivateLv ol1) True, Call (DeactivateLv ol1) True, Call (LvRemove ol1) True]"
      from e none have "evs = pre @ Call (MoveLvSegments cache_lv ol1) True
              # Call (LvAddVirtualSegment ol1 0 n1 None) True # post"
        by (simp add: success_trace_def pre_def post_def)
      then show ?thesis by blast
    qed
    show ?thesis
      apply (rule exI[of _ evs])
      apply (intro conjI)
        apply (rule t)
       apply (use a in blast)
      apply (use b in blast)
      done
  qed
  have q2: ?Q2 if h: ?H2
    using h by (simp add: lv_cache_create_def)
  from q0 q1 q2 show ?thesis by blast
qed

lemma no_error_grants: "succeeds no_error_env hist c"
  by (simp add: no_error_env_def draining_env_def scenario_env_def)

lemma cached_pool:
  "pool_lv (the (get_seg cached_world 2)) = Some 0"
  "seg_lv (the (get_seg cached_world 2)) 0 = Some 2"
  "first_seg cached_world 1 = Some 2"
  "get_lv cached_world 0 = Some (the (get_lv cached_world 0))"
  "get_lv cached_world 2 = Some (the (get_lv cached_world 2))"
  "le_count (the (get_lv cached_world 2)) = 10"
proof -
  show "pool_lv (the (get_seg cached_world 2)) = Some 0" by code_simp
  show "seg_lv (the (get_seg cached_world 2)) 0 = Some 2" by code_simp
  show "first_seg cached_world 1 = Some 2" by code_simp
  have "get_lv cached_world 0 \<noteq> None" by code_simp
  then show "get_lv cached_world 0 = Some (the (get_lv cached_world 0))" by simp
  have "get_lv cached_world 2 \<noteq> None" by code_simp
  then show "get_lv cached_world 2 = Some (the (get_lv cached_world 2))" by simp
  show "le_count (the (get_lv cached_world 2)) = 10" by code_simp
qed

theorem error_segtype_not_checked_witness:
  "get_segtype_from_string no_error_env ''error'' = None \<and>
   first_seg cached_world 1 = Some 2 \<and>
   pool_lv (the (get_seg cached_world 2)) = Some 0 \<and>
   seg_lv (the (get_seg cached_world 2)) 0 = Some 2 \<and>
   trace (snd (unlink_and_promote no_error_env 1 cached_world))
     = trace cached_world @ [Call (DetachPoolLv 2) True, SetVisible 2,
                              Call (RemoveSegFromSegsUsingThisLv 2 2) True,
                              Call (MoveLvSegments 1 2) True,
                              Call (LvAddVirtualSegment 2 0 10 None) True] \<and>
   fst (unlink_and_promote no_error_env 1 cached_world) = Inr (Some 0, 2) \<and>
   lv_cache_remove no_error_env 1 cached_world
     = Some (Return 1, snd (the (lv_cache_remove no_error_env 1 cached_world))) \<and>
   (\<exists>pre ol n post. trace (snd (the (lv_cache_remove no_error_env 1 cached_world)))
       = trace cached_world @ pre @ Call (MoveLvSegments 1 ol) True
                                  # Call (LvAddVirtualSegment ol 0 n None) True # post) \<and>
   get_lv scenario_world 0 = Some volume_P \<and> lv_is_cache_pool no_cache_env volume_P \<and>
   get_lv scenario_world 1 = Some volume_O \<and> \<not> lv_is_cache_type no_cache_env volume_O \<and>
   get_segtype_from_string no_cache_env ''cache'' = None \<and>
   lv_cache_create no_cache_env 0 1 scenario_world = (Return None, scenario_world)"
proof -
  have a: "get_segtype_from_string no_error_env ''error'' = None"
    and b: "lv_is_cache_pool no_cache_env volume_P"
    and c: "\<not> lv_is_cache_type no_cache_env volume_O"
    and d: "get_segtype_from_string no_cache_env ''cache'' = None"
    by code_simp+
  note th0 = error_segtype_not_checked[where E = no_error_env and cache_lv = 1
      and w = cached_world and seg = 2 and s = "the (get_seg cached_world 2)" and pool = 0
      and p = "the (get_lv cached_world 0)" and ol = 2 and h = "the (get_lv cached_world 2)"]
  note th1 = error_segtype_not_checked[where E = no_error_env and cache_lv = 1
      and w = cached_world and r = "Return 1"
      and w' = "snd (the (lv_cache_remove no_error_env 1 cached_world))",
      THEN conjunct2, THEN conjunct1, THEN mp, OF conjI[OF no_error_run a]]
  note th2 = error_segtype_not_checked[where E = no_cache_env and w0 = scenario_world
      and pool0 = 0 and p0 = volume_P and origin = 1 and orig = volume_O]
  have ne: "(2::nat) \<noteq> 1" by simp
  from th0 cached_pool cached_segment a no_error_grants ne
  have q0: "\<exists>b. trace (snd (unlink_and_promote no_error_env 1 cached_world))
              = trace cached_world @ [Call (DetachPoolLv 2) True, SetVisible 2,
                           Call (RemoveSegFromSegsUsingThisLv 2 2) True,
                           Call (MoveLvSegments 1 2) True,
                           Call (LvAddVirtualSegment 2 0 (le_count (the (get_lv cached_world 2))) None) b]
         \<and> b = succeeds no_error_env (trace cached_world @ [Call (DetachPoolLv 2) True, SetVisible 2,
                           Call (RemoveSegFromSegsUsingThisLv 2 2) True,
                           Call (MoveLvSegments 1 2) True])
                  (LvAddVirtualSegment 2 0 (le_count (the (get_lv cached_world 2))) None)
         \<and> fst (unlink_and_promote no_error_env 1 cached_world)
              = (if b then Inr (Some 0, 2) else Inl (Return 0))"
    by blast
  then have q0': "trace (snd (unlink_and_promote no_error_env 1 cached_world))
     = trace cached_world @ [Call (DetachPoolLv 2) True, SetVisible 2,
                              Call (RemoveSegFromSegsUsingThisLv 2 2) True,
                              Call (MoveLvSegments 1 2) True,
                              Call (LvAddVirtualSegment 2 0 10 None) True]"
    "fst (unlink_and_promote no_error_env 1 cached_world) = Inr (Some 0, 2)"
    by (auto simp: no_error_grants cached_pool(6))
  from th1 obtain evs where
    e0: "trace (snd (the (lv_cache_remove no_error_env 1 cached_world))) = trace cached_world @ evs"
    and e1: "Return 1 = (Return 1 :: int result) \<longrightarrow>
      (\<exists>pre ol n post. evs = pre @ Call (MoveLvSegments 1 ol) True
                                  # Call (LvAddVirtualSegment ol 0 n None) True # post)"
    by (elim exE conjE) (rule that)
  from e1 obtain pre ol n post where "evs = pre @ Call (MoveLvSegments 1 ol) True
                                  # Call (LvAddVirtualSegment ol 0 n None) True # post"
    by auto
  with e0 have "trace (snd (the (lv_cache_remove no_error_env 1 cached_world)))
       = trace cached_world @ pre @ Call (MoveLvSegments 1 ol) True
                                  # Call (LvAddVirtualSegment ol 0 n None) True # post"
    by simp
  then have q1: "\<exists>pre ol n post. trace (snd (the (lv_cache_remove no_error_env 1 cached_world)))
       = trace cached_world @ pre @ Call (MoveLvSegments 1 ol) True
                                  # Call (LvAddVirtualSegment ol 0 n None) True # post"
    by blast
  from th2 scenario_volumes b c d
  have q2: "lv_cache_create no_cache_env 0 1 scenario_world = (Return None, scenario_world)" by blast
  from a cached_pool(1,2,3) q0' no_error_run q1 scenario_volumes b c d q2 show ?thesis by blast
qed

subsection \<open>The cleaner policy\<close>

lemma keeps_policy_refl [simp]: "keeps_policy w w"
  by (simp add: keeps_policy_def)


lemma keeps_policy_eq: "get_seg w' = get_seg w \<Longrightarrow> keeps_policy w w'"
  by (simp add: keeps_policy_def)

lemma keeps_policy_left [simp]:
  "keeps_policy (lv_set_visible i a) b = keeps_policy a b"
  "keeps_policy (put_lv i l a) b = keeps_policy a b"
  "keeps_policy (record_event e a) b = keeps_policy a b"
  by (simp_all add: keeps_policy_def get_lv_set_visible)

lemma keeps_policy_right [simp]:
  "keeps_policy a (lv_set_visible i b) = keeps_policy a b"
  "keeps_policy a (put_lv i l b) = keeps_policy a b"
  "keeps_policy a (record_event e b) = keeps_policy a b"
  by (simp_all add: keeps_policy_def get_lv_set_visible)











subsection \<open>Attach followed by detach\<close>

lemma lv_cache_create_progress:
  assumes p: "get_lv w pool = Some p" "lv_is_cache_pool E p"
    and ori: "get_lv w origin = Some orig" "\<not> lv_is_cache_type E orig"
    and st: "get_segtype_from_string E ''cache'' = Some t"
    and g: "\<And>hist c. succeeds E hist c"
  shows "\<exists>w1. lv_cache_create E pool origin w = (Return (Some origin), w1)"
proof -
  define wa where "wa = snd (insert_layer_for_lv E origin (CACHE E) ''_corig'' w)"
  have il: "insert_layer_for_lv E origin (CACHE E) ''_corig'' w = (Some (length (lvs w)), wa)"
    unfolding wa_def
    by (simp add: insert_layer_for_lv_def primitive_def insert_layer_effect_def ori g Let_def)
  from insert_layer_ok[OF il] ori(1) have
    la: "get_lv wa = (get_lv w)(origin \<mapsto> orig\<lparr>status := status orig OR CACHE E,
                                               segments := [length (segs w)]\<rparr>,
                                  length (lvs w) \<mapsto> layer_volume orig ''_corig'' (length (segs w)))"
    and sa: "get_seg wa = (get_seg w)(length (segs w) \<mapsto> layer_segment orig (length (lvs w)))"
    by auto
  from get_lv_valid[OF ori(1)] have neq: "origin \<noteq> length (lvs w)" by simp
  from get_lv_valid[OF p(1)] have pneq: "pool \<noteq> length (lvs w)" by simp
  from la neq have ca: "get_lv wa origin = Some (orig\<lparr>status := status orig OR CACHE E,
                                               segments := [length (segs w)]\<rparr>)" by simp
  have fa: "first_seg wa origin = Some (length (segs w))"
    using ca by (rule first_seg_eq) simp
  have ga: "get_seg wa (length (segs w)) = Some (layer_segment orig (length (lvs w)))"
    using sa by simp
  define wb where "wb = put_seg (length (segs w))
      ((layer_segment orig (length (lvs w)))\<lparr>segtype := Some t\<rparr>) wa"
  from ga have "get_seg wb = (get_seg wa)(length (segs w) \<mapsto>
      (layer_segment orig (length (lvs w)))\<lparr>segtype := Some t\<rparr>)"
    unfolding wb_def by (intro get_seg_put_seg) simp
  then have gb: "get_seg wb (length (segs w))
      = Some ((layer_segment orig (length (lvs w)))\<lparr>segtype := Some t\<rparr>)" by simp
  have "get_lv wb = get_lv wa" by (simp add: wb_def)
  with la p(1) pneq obtain pb where pb: "get_lv wb pool = Some pb"
    by (cases "pool = origin") auto
  define wc where "wc = snd (attach_pool_lv E (length (segs w)) pool wb)"
  have at: "attach_pool_lv E (length (segs w)) pool wb = (True, wc)"
    unfolding wc_def
    by (simp add: attach_pool_lv_def primitive_def attach_pool_effect_def gb pb g)
  have "lv_cache_create E pool origin w = (Return (Some origin), wc)"
    using il fa ga at
    by (simp add: lv_cache_create_def p ori st Let_def wb_def[symmetric])
  then show ?thesis ..
qed

lemma lv_cache_remove_progress:
  assumes lv: "get_lv w lv = Some c" "lv_is_cache E c"
    and seg: "first_seg w lv = Some seg" "get_seg w seg = Some s"
    and pool: "pool_lv s = Some pool" "get_lv w pool = Some p"
    and orig: "seg_lv s 0 = Some ol" "get_lv w ol = Some h" "ol \<noteq> lv"
    and g: "\<And>hist c. succeeds E hist c"
    and pq: "\<And>hist. policy_info E hist lv \<noteq> None"
    and bq: "\<And>hist. block_info E hist lv = Some 0"
  shows "\<exists>w'. lv_cache_remove E lv w = Some (Return 1, w')"
proof -
  from pq[of "trace w"] obtain pn where pn: "policy_info E (trace w) lv = Some pn" by auto
  define w1 where "w1 = record_event (PolicyInfo lv (Some pn)) w"
  have pi: "lv_cache_policy_info E lv w = (Some pn, w1)"
    by (simp add: lv_cache_policy_info_def pn w1_def Let_def)
  have l1: "get_lv w1 = get_lv w" and s1: "get_seg w1 = get_seg w" by (simp_all add: w1_def)
  define w2 where "w2 = (if pn \<noteq> ''cleaner'' then snd (swap_in_cleaner E lv (Some seg) w1) else w1)"
  have sw: "swap_in_cleaner E lv (Some seg) w1 = (None, snd (swap_in_cleaner E lv (Some seg) w1))"
    using seg(2) s1
    by (simp add: swap_in_cleaner_def Let_def vg_write_def suspend_lv_def vg_commit_def
        resume_lv_def primitive_def g)
  have sw2: "(if pn \<noteq> ''cleaner'' then swap_in_cleaner E lv (Some seg) w1 else (None, w1))
      = (None, w2)"
    using sw by (simp add: w2_def)
  obtain s2 where l2: "lvs w2 = lvs w1" and s2: "get_seg w2 seg = Some s2"
    "pool_lv s2 = Some pool" "seg_lv s2 0 = Some ol"
  proof (cases "pn = ''cleaner''")
    case True
    with seg(2) s1 pool(1) orig(1) that show ?thesis by (simp add: w2_def)
  next
    case False
    from seg(2) s1 have g1: "get_seg w1 seg = Some s" by simp
    from swap_in_cleaner_result(2)[OF sw refl g1]
    have "segs (snd (swap_in_cleaner E lv (Some seg) w1)) = (segs w1)[seg := Some (swap_cleaner s)]" .
    from get_seg_list_update[OF get_seg_valid[OF g1] this refl]
    have "get_seg (snd (swap_in_cleaner E lv (Some seg) w1)) seg = Some (swap_cleaner s)" by simp
    with False swap_in_cleaner_result(1)[OF sw] pool(1) orig(1) that[of "swap_cleaner s"]
    show ?thesis by (simp add: w2_def)
  qed
  from l2 have gl2: "get_lv w2 = get_lv w1" by (rule get_lv_cong)
  define w3 where "w3 = record_event (BlockInfo lv (Some 0)) w2"
  have fw: "flush_wait E lv w2 = Some (True, w3)"
    by (subst flush_wait.simps) (simp add: lv_cache_block_info_def bq w3_def Let_def)
  have l3: "get_lv w3 = get_lv w" using gl2 l1 by (simp add: w3_def)
  have s3: "get_seg w3 seg = Some s2" using s2(1) by (simp add: w3_def)
  have f3: "first_seg w3 lv = Some seg"
    using seg(1) l3 first_seg_cong[of w3 lv w] by simp
  from pool(2) orig(2) l3 have p3: "get_lv w3 pool = Some p" and h3: "get_lv w3 ol = Some h"
    by simp_all
  from unlink_and_promote_progress[OF f3 s3 s2(2) p3 s2(3) h3 orig(3) g g g]
  obtain w9 where up: "unlink_and_promote E lv w3 = (Inr (Some pool, ol), w9)"
    by (auto simp: g)
  from unlink_and_promote_result[OF up] obtain h9 where h9: "get_lv w9 ol = Some h9" by blast
  have ct: "commit_and_teardown E lv (Some pool) ol w9
      = (Return 1, snd (commit_and_teardown E lv (Some pool) ol w9))"
    using h9
    by (simp add: commit_and_teardown_def vg_write_def suspend_lv_def vg_commit_def
        resume_lv_def activate_lv_def deactivate_lv_def lv_remove_def lv_remove_effect_def
        primitive_def g)
  have "lv_cache_remove E lv w
      = Some (Return 1, snd (commit_and_teardown E lv (Some pool) ol w9))"
    using pi sw2 fw up ct
    by (simp add: lv_cache_remove_def lv seg Let_def)
  then show ?thesis ..
qed

lemma cached_state:
  assumes cr: "lv_cache_create E pool origin w = (Return (Some c), wa)"
    and ori: "get_lv w origin = Some orig"
  shows "c = origin"
    and "\<exists>ca pa. get_lv wa origin = Some ca \<and> name ca = name orig \<and> visible ca = visible orig
            \<and> status ca = status orig OR CACHE E
            \<and> first_seg wa origin = Some (length (segs w))
            \<and> get_seg wa (length (segs w))
                = Some ((layer_segment orig (length (lvs w)))\<lparr>segtype := Some (Segtype ''cache''),
                                                               pool_lv := Some pool\<rparr>)
            \<and> get_lv wa (length (lvs w)) = Some (layer_volume orig ''_corig'' (length (segs w)))
            \<and> get_lv wa pool = Some pa
            \<and> origin \<noteq> length (lvs w)
            \<and> length (segs wa) = Suc (length (segs w))
            \<and> (\<forall>j. j < length (segs w) \<longrightarrow> get_seg wa j = get_seg w j)"
proof -
  from lv_cache_create_success[OF cr] show "c = origin" by simp
  from lv_cache_create_success[OF cr] obtain origa ca pa where
    g: "get_lv w origin = Some origa" and
    f0: "get_seg wa = (get_seg w)(length (segs w) \<mapsto>
          (layer_segment origa (length (lvs w)))\<lparr>segtype := Some (Segtype ''cache''),
                                                 pool_lv := Some pool\<rparr>)"
      "get_lv wa (length (lvs w)) = Some (layer_volume origa ''_corig'' (length (segs w)))"
      "get_lv wa origin = Some ca" "name ca = name origa" "visible ca = visible origa"
      "status ca = status origa OR CACHE E" "segments ca = [length (segs w)]"
      "get_lv wa pool = Some pa" "length (segs wa) = Suc (length (segs w))"
    by (elim exE conjE) (rule that)
  from g ori have "origa = orig" by simp
  note f = f0[unfolded this]
  from get_lv_valid[OF ori] have n: "origin \<noteq> length (lvs w)" by simp
  have fs: "first_seg wa origin = Some (length (segs w))"
    using f(3,7) by (rule first_seg_eq)
  from f(1) have s: "get_seg wa (length (segs w))
                = Some ((layer_segment orig (length (lvs w)))\<lparr>segtype := Some (Segtype ''cache''),
                                                               pool_lv := Some pool\<rparr>)"
    and o: "\<forall>j. j < length (segs w) \<longrightarrow> get_seg wa j = get_seg w j" by simp_all
  from f(2-6,8,9) n fs s o
  show "\<exists>ca pa. get_lv wa origin = Some ca \<and> name ca = name orig \<and> visible ca = visible orig
            \<and> status ca = status orig OR CACHE E
            \<and> first_seg wa origin = Some (length (segs w))
            \<and> get_seg wa (length (segs w))
                = Some ((layer_segment orig (length (lvs w)))\<lparr>segtype := Some (Segtype ''cache''),
                                                               pool_lv := Some pool\<rparr>)
            \<and> get_lv wa (length (lvs w)) = Some (layer_volume orig ''_corig'' (length (segs w)))
            \<and> get_lv wa pool = Some pa
            \<and> origin \<noteq> length (lvs w)
            \<and> length (segs wa) = Suc (length (segs w))
            \<and> (\<forall>j. j < length (segs w) \<longrightarrow> get_seg wa j = get_seg w j)"
    by blast
qed

lemma seg_lv_layer:
  "seg_lv ((layer_segment l i)\<lparr>segtype := x, pool_lv := y\<rparr>) 0 = Some i"
  by (simp add: seg_lv_def layer_segment_def)

lemma round_trip_restores:
  assumes cr: "lv_cache_create E pool origin w = (Return (Some c), wa)"
    and rm: "lv_cache_remove E c wa = Some (Return 1, wb)"
    and ori: "get_lv w origin = Some orig"
  shows "c = origin
    \<and> (\<exists>l. get_lv wb origin = Some l \<and> name l = name orig \<and> le_count l = le_count orig
           \<and> segments l = segments orig \<and> visible l = visible orig)
    \<and> (\<forall>j. j < length (segs w) \<longrightarrow> get_seg wb j = get_seg w j)
    \<and> get_lv wb (length (lvs w)) = None"
proof -
  note c = cached_state(1)[OF cr ori]
  from cached_state(2)[OF cr ori] obtain ca where
    a: "get_lv wa origin = Some ca" "name ca = name orig" "visible ca = visible orig"
      "first_seg wa origin = Some (length (segs w))"
      "get_seg wa (length (segs w))
                = Some ((layer_segment orig (length (lvs w)))\<lparr>segtype := Some (Segtype ''cache''),
                                                               pool_lv := Some pool\<rparr>)"
      "get_lv wa (length (lvs w)) = Some (layer_volume orig ''_corig'' (length (segs w)))"
      "length (segs wa) = Suc (length (segs w))"
      "\<forall>j. j < length (segs w) \<longrightarrow> get_seg wa j = get_seg w j"
    by (elim exE conjE) (rule that)
  from rm c have rm': "lv_cache_remove E origin wa = Some (Return 1, wb)" by simp
  from lv_cache_remove_success_state[OF rm'] obtain seg s ol cb h l where
    b: "first_seg wa origin = Some seg" "get_seg wa seg = Some s" "seg_lv s 0 = Some ol"
      "get_lv wa origin = Some cb" "get_lv wa ol = Some h"
      "get_lv wb origin = Some l" "name l = name cb" "visible l = visible cb"
      "segments l = segments h" "le_count l = le_count h"
      "get_lv wb ol = None"
      "\<forall>j. j \<noteq> seg \<and> j < length (segs wa) \<longrightarrow> get_seg wb j = get_seg wa j"
    by (elim exE conjE) (rule that)
  from a(4) b(1) have seg: "seg = length (segs w)" by simp
  with a(5) b(2,3) have ol: "ol = length (lvs w)" by (auto simp: seg_lv_def layer_segment_def)
  with a(6) b(5) have h: "h = layer_volume orig ''_corig'' (length (segs w))" by simp
  from a(1) b(4) have cb: "cb = ca" by simp
  have l: "get_lv wb origin = Some l \<and> name l = name orig \<and> le_count l = le_count orig
           \<and> segments l = segments orig \<and> visible l = visible orig"
    using b(6-10) h cb a(2,3) by (simp add: layer_volume_def)
  have o: "get_seg wb j = get_seg w j" if "j < length (segs w)" for j
    using that b(12) a(7,8) seg by simp
  from c l o b(11) ol show ?thesis by blast
qed

text \<open>
  Claim C3. When attach on a pool and an origin returns a volume and detach on
  that volume then returns 1: the volume is the origin's object, and after the
  detach it has the name, the extent count, the list of segments and the
  visibility that the origin had before the attach; every segment that existed
  before the attach is as it was; and the hidden volume that attach created no
  longer exists. And on a valid pair, a recognised cache pool and an origin that
  is not cache-typed, with the segment type "cache" registered, a nonzero CACHE
  bit, primitives that succeed, a policy query that answers and a dirty-block
  count that reads zero, attach does return the origin and detach on it does
  return 1, with the result just described.
\<close>

theorem attach_detach_round_trip:
  "(lv_cache_create E pool origin w = (Return (Some c), wa)
      \<and> lv_cache_remove E c wa = Some (Return 1, wb)
      \<and> get_lv w origin = Some orig \<longrightarrow>
      c = origin
      \<and> (\<exists>l. get_lv wb origin = Some l \<and> name l = name orig \<and> le_count l = le_count orig
             \<and> segments l = segments orig \<and> visible l = visible orig)
      \<and> (\<forall>j. j < length (segs w) \<longrightarrow> get_seg wb j = get_seg w j)
      \<and> get_lv wb (length (lvs w)) = None)
   \<and>
   (get_lv w pool = Some p \<and> lv_is_cache_pool E p
      \<and> get_lv w origin = Some orig \<and> \<not> lv_is_cache_type E orig
      \<and> ''cache'' \<in> set (segtypes E) \<and> CACHE E \<noteq> 0
      \<and> (\<forall>hist k. succeeds E hist k)
      \<and> (\<forall>hist. policy_info E hist origin \<noteq> None)
      \<and> (\<forall>hist. block_info E hist origin = Some 0) \<longrightarrow>
      (\<exists>wc wd l. lv_cache_create E pool origin w = (Return (Some origin), wc)
          \<and> lv_cache_remove E origin wc = Some (Return 1, wd)
          \<and> get_lv wd origin = Some l \<and> name l = name orig \<and> le_count l = le_count orig
          \<and> segments l = segments orig \<and> visible l = visible orig
          \<and> (\<forall>j. j < length (segs w) \<longrightarrow> get_seg wd j = get_seg w j)
          \<and> get_lv wd (length (lvs w)) = None))"
  (is "(?H1 \<longrightarrow> ?Q1) \<and> (?H2 \<longrightarrow> ?Q2)")
proof -
  have q1: ?Q1 if h: ?H1
  proof -
    from h have cr: "lv_cache_create E pool origin w = (Return (Some c), wa)"
      and rm: "lv_cache_remove E c wa = Some (Return 1, wb)"
      and ori: "get_lv w origin = Some orig" by simp_all
    from round_trip_restores[OF cr rm ori] show ?thesis .
  qed
  have q2: ?Q2 if h: ?H2
  proof -
    from h have p: "get_lv w pool = Some p" "lv_is_cache_pool E p"
      and ori: "get_lv w origin = Some orig" "\<not> lv_is_cache_type E orig"
      and reg: "''cache'' \<in> set (segtypes E)" and bit: "CACHE E \<noteq> 0"
      and g: "\<And>hist k. succeeds E hist k"
      and pq: "\<And>hist. policy_info E hist origin \<noteq> None"
      and bq: "\<And>hist. block_info E hist origin = Some 0"
      by simp_all
    from reg have st: "get_segtype_from_string E ''cache'' = Some (Segtype ''cache'')"
      by (simp add: get_segtype_from_string_def)
    from lv_cache_create_progress[OF p ori st g] obtain wc where
      cr: "lv_cache_create E pool origin w = (Return (Some origin), wc)" by blast
    from cached_state(2)[OF cr ori(1)] obtain ca pa where
      a: "get_lv wc origin = Some ca" "status ca = status orig OR CACHE E"
        "first_seg wc origin = Some (length (segs w))"
        "get_seg wc (length (segs w))
                = Some ((layer_segment orig (length (lvs w)))\<lparr>segtype := Some (Segtype ''cache''),
                                                               pool_lv := Some pool\<rparr>)"
        "get_lv wc (length (lvs w)) = Some (layer_volume orig ''_corig'' (length (segs w)))"
        "get_lv wc pool = Some pa" "origin \<noteq> length (lvs w)"
      by (elim exE conjE) (rule that)
    from a(2) bit have ic: "lv_is_cache E ca"
      by (simp add: lv_is_cache_def word_or_and_absorb)
    have pl: "pool_lv ((layer_segment orig (length (lvs w)))\<lparr>segtype := Some (Segtype ''cache''),
                                                               pool_lv := Some pool\<rparr>) = Some pool"
      by simp
    from a(7) have ne: "length (lvs w) \<noteq> origin" by simp
    from lv_cache_remove_progress[OF a(1) ic a(3) a(4) pl a(6) seg_lv_layer a(5) ne g pq bq]
    obtain wd where rm: "lv_cache_remove E origin wc = Some (Return 1, wd)" by blast
    from round_trip_restores[OF cr rm ori(1)] obtain l where
      l: "get_lv wd origin = Some l" "name l = name orig" "le_count l = le_count orig"
         "segments l = segments orig" "visible l = visible orig"
      and o: "\<forall>j. j < length (segs w) \<longrightarrow> get_seg wd j = get_seg w j"
      and n: "get_lv wd (length (lvs w)) = None"
      by (elim exE conjE) (rule that)
    show ?thesis
      apply (rule exI[of _ wc])
      apply (rule exI[of _ wd])
      apply (rule exI[of _ l])
      using cr rm l o n apply simp
      done
  qed
  from q1 q2 show ?thesis by blast
qed

lemma scenario_grants:
  "lv_is_cache_pool scenario_env volume_P" "\<not> lv_is_cache_type scenario_env volume_O"
  "''cache'' \<in> set (segtypes scenario_env)" "CACHE scenario_env \<noteq> 0"
  "succeeds scenario_env hist k" "policy_info scenario_env hist 1 \<noteq> None"
  "block_info scenario_env hist 1 = Some 0"
proof -
  show "lv_is_cache_pool scenario_env volume_P" by code_simp
  show "\<not> lv_is_cache_type scenario_env volume_O" by code_simp
  show "''cache'' \<in> set (segtypes scenario_env)" by (simp add: scenario_env_def)
  show "CACHE scenario_env \<noteq> 0" by (simp add: scenario_env_def)
  show "succeeds scenario_env hist k" by (simp add: scenario_env_def)
  show "policy_info scenario_env hist 1 \<noteq> None" by (simp add: scenario_env_def)
  show "block_info scenario_env hist 1 = Some 0" by (simp add: scenario_env_def)
qed

theorem attach_detach_round_trip_witness:
  "get_lv scenario_world 0 = Some volume_P \<and> lv_is_cache_pool scenario_env volume_P \<and>
   get_lv scenario_world 1 = Some volume_O \<and> \<not> lv_is_cache_type scenario_env volume_O \<and>
   (\<exists>wc wd l. lv_cache_create scenario_env 0 1 scenario_world = (Return (Some 1), wc)
      \<and> lv_cache_remove scenario_env 1 wc = Some (Return 1, wd)
      \<and> get_lv wd 1 = Some l \<and> name l = ''O'' \<and> le_count l = 10 \<and> segments l = [1]
      \<and> visible l
      \<and> get_seg wd 1 = get_seg scenario_world 1)"
proof -
  note th = attach_detach_round_trip[where E = scenario_env and pool = 0 and origin = 1
      and w = scenario_world and p = volume_P and orig = volume_O,
      THEN conjunct2, THEN mp]
  have h: "get_lv scenario_world 0 = Some volume_P \<and> lv_is_cache_pool scenario_env volume_P
      \<and> get_lv scenario_world 1 = Some volume_O \<and> \<not> lv_is_cache_type scenario_env volume_O
      \<and> ''cache'' \<in> set (segtypes scenario_env) \<and> CACHE scenario_env \<noteq> 0
      \<and> (\<forall>hist k. succeeds scenario_env hist k)
      \<and> (\<forall>hist. policy_info scenario_env hist 1 \<noteq> None)
      \<and> (\<forall>hist. block_info scenario_env hist 1 = Some 0)"
    using scenario_volumes scenario_grants by blast
  have len: "(1::nat) < length (segs scenario_world)" by (simp add: scenario_world_def)
  from th[OF h] obtain wc wd l where
    r: "lv_cache_create scenario_env 0 1 scenario_world = (Return (Some 1), wc)"
      "lv_cache_remove scenario_env 1 wc = Some (Return 1, wd)"
      "get_lv wd 1 = Some l" "name l = name volume_O" "le_count l = le_count volume_O"
      "segments l = segments volume_O" "visible l = visible volume_O"
      "\<forall>j. j < length (segs scenario_world) \<longrightarrow> get_seg wd j = get_seg scenario_world j"
    by (elim exE conjE) (rule that)
  from r(8) len have s: "get_seg wd 1 = get_seg scenario_world 1" by simp
  from r(4-7) have v: "name l = ''O''" "le_count l = 10" "segments l = [1]" "visible l"
    by (simp_all add: volume_O_def)
  from scenario_volumes scenario_grants(1,2) r(1,2,3) v s show ?thesis by blast
qed

end
